theory Spec2Isabelle
  imports Complex_Main "HOL-Library.Word"
begin

section \<open>Mail deduplication and result cache of mac-mail-mcp\<close>

text \<open>
  The development embeds two parts of the mail component: the class
  \<open>MessageDeduplicator\<close> (mail/security.ts) and the class \<open>MailCache\<close> (the SQLite
  result cache).

  Conventions of the embedding.
  \<^item> A JavaScript string is a sequence of UTF-16 code units; it is modelled as a
    \<^typ>\<open>string\<close> whose characters are the code units below 256 (ASCII and Latin-1).
  \<^item> A valid \<open>Date\<close> is its time value, an \<^typ>\<open>int\<close> of milliseconds since the epoch.
  \<^item> An optional field is an \<^typ>\<open>'a option\<close>; a JavaScript number that holds a count or
    an identifier is an \<^typ>\<open>int\<close>.
  \<^item> The mutable fields of a class instance are a record that every method takes and
    returns.
\<close>

subsection \<open>Strings of the JavaScript library\<close>

text \<open>\<open>\s\<close> of a regular expression and the white space of \<open>trim\<close>, below code unit 256:
  TAB, LF, VT, FF, CR, SPACE and NBSP.\<close>

definition isSpace :: "char \<Rightarrow> bool" where
  "isSpace c = ((of_char c :: nat) \<in> {9, 10, 11, 12, 13, 32, 160})"

text \<open>\<open>String.prototype.toLowerCase\<close>: A-Z and the Latin-1 capitals (all of 0xC0-0xDE except
  the multiplication sign 0xD7) move up by 32.\<close>

definition toLowerCase_char :: "char \<Rightarrow> char" where
  "toLowerCase_char c =
     (let n = (of_char c :: nat)
      in if (65 \<le> n \<and> n \<le> 90) \<or> (192 \<le> n \<and> n \<le> 222 \<and> n \<noteq> 215)
         then char_of (n + 32) else c)"

definition toLowerCase :: "string \<Rightarrow> string" where
  "toLowerCase s = map toLowerCase_char s"

definition trim :: "string \<Rightarrow> string" where
  "trim s = rev (dropWhile isSpace (rev (dropWhile isSpace s)))"

text \<open>\<open>s.substring(0, n)\<close>.\<close>

definition substring0 :: "nat \<Rightarrow> string \<Rightarrow> string" where
  "substring0 n s = take n s"

text \<open>\<open>s.replace(/^(re:|fwd?:|fw:)\s*/g, '')\<close>: the pattern is anchored at the start, so at
  most one prefix is removed, together with the white space after it. The alternatives are
  tried in the order of the pattern.\<close>

definition stripReplyPrefix :: "string \<Rightarrow> string" where
  "stripReplyPrefix s =
     (if take 3 s = ''re:'' then dropWhile isSpace (drop 3 s)
      else if take 3 s = ''fw:'' then dropWhile isSpace (drop 3 s)
      else if take 4 s = ''fwd:'' then dropWhile isSpace (drop 4 s)
      else s)"

text \<open>\<open>s.replace(/\s+/g, ' ')\<close>: every maximal run of white space becomes one space.\<close>

fun collapseSpaces :: "string \<Rightarrow> string" where
  "collapseSpaces [] = []"
| "collapseSpaces [c] = [if isSpace c then CHR '' '' else c]"
| "collapseSpaces (c # d # cs) =
     (if isSpace c
      then (if isSpace d then collapseSpaces (d # cs) else CHR '' '' # collapseSpaces (d # cs))
      else c # collapseSpaces (d # cs))"

text \<open>\<open>s.replace(/<[^>]+>/, '')\<close>: the leftmost \<open><\<close> that is followed by at least one
  character other than \<open>>\<close> and then by a \<open>>\<close> is removed up to that \<open>>\<close>; only the
  first match is replaced.\<close>

fun removeAngle :: "string \<Rightarrow> string" where
  "removeAngle [] = []"
| "removeAngle (c # cs) =
     (if c = CHR ''<''
         \<and> takeWhile (\<lambda>x. x \<noteq> CHR ''>'') cs \<noteq> []
         \<and> dropWhile (\<lambda>x. x \<noteq> CHR ''>'') cs \<noteq> []
      then tl (dropWhile (\<lambda>x. x \<noteq> CHR ''>'') cs)
      else c # removeAngle cs)"

text \<open>\<open>s.replace(/["\s]/g, '')\<close>.\<close>

definition removeQuotesSpaces :: "string \<Rightarrow> string" where
  "removeQuotesSpaces s = filter (\<lambda>c. \<not> (c = CHR 0x22 \<or> isSpace c)) s"

text \<open>Decimal digits of a non-negative integer, and \<open>Number.prototype.toString\<close> on an
  integer.\<close>

definition digit :: "int \<Rightarrow> char" where
  "digit n = char_of (48 + n mod 10)"

function digits :: "int \<Rightarrow> string" where
  "digits n = (if n < 10 then [digit n] else digits (n div 10) @ [digit n])"
  by pat_completeness auto
termination
  by (relation "measure nat") auto

declare digits.simps [simp del]

definition toString_int :: "int \<Rightarrow> string" where
  "toString_int i = (if i < 0 then CHR ''-'' # digits (- i) else digits i)"

text \<open>A number padded with zeros on the left to a width, as the date formatter does.\<close>

definition pad :: "nat \<Rightarrow> int \<Rightarrow> string" where
  "pad w n = replicate (w - length (digits n)) CHR ''0'' @ digits n"

subsection \<open>Dates\<close>

text \<open>The civil date (year, month, day) of a day number counted from 1970-01-01, in the
  proleptic Gregorian calendar that \<open>Date\<close> uses.\<close>

definition civilFromDays :: "int \<Rightarrow> int \<times> int \<times> int" where
  "civilFromDays days =
     (let z = days + 719468;
          era = z div 146097;
          doe = z - era * 146097;
          yoe = (doe - doe div 1460 + doe div 36524 - doe div 146096) div 365;
          doy = doe - (365 * yoe + yoe div 4 - yoe div 100);
          mp = (5 * doy + 2) div 153;
          d = doy - (153 * mp + 2) div 5 + 1;
          m = (if mp < 10 then mp + 3 else mp - 9);
          y = yoe + era * 400
      in (if m \<le> 2 then y + 1 else y, m, d))"

text \<open>\<open>Date.prototype.toISOString\<close>: \<open>YYYY-MM-DDTHH:mm:ss.sssZ\<close>, with a signed year of six
  digits outside 0..9999.\<close>

definition toISOString :: "int \<Rightarrow> string" where
  "toISOString t =
     (let days = t div 86400000;
          ms = t mod 86400000;
          (y, m, d) = civilFromDays days;
          year = (if 0 \<le> y \<and> y \<le> 9999 then pad 4 y
                  else (if y < 0 then CHR ''-'' else CHR ''+'') # pad 6 \<bar>y\<bar>)
      in year @ ''-'' @ pad 2 m @ ''-'' @ pad 2 d @ ''T''
         @ pad 2 (ms div 3600000) @ '':'' @ pad 2 (ms div 60000 mod 60) @ '':''
         @ pad 2 (ms div 1000 mod 60) @ ''.'' @ pad 3 (ms mod 1000) @ ''Z'')"

subsection \<open>Messages and statistics\<close>

datatype Source = MacMail | Imap

text \<open>The interface \<open>UnifiedMessage\<close>. The fields \<open>to\<close>, \<open>cc\<close> and \<open>originalData\<close>, which the
  deduplicator never reads, are left out; \<open>id\<close> and \<open>from\<close> carry a suffix.\<close>

record UnifiedMessage =
  id_m :: string
  globalMessageId :: "int option"
  messageIdHeader :: "string option"
  subject :: string
  from_m :: string
  date :: int
  isRead :: bool
  isFlagged :: bool
  hasAttachments :: bool
  account :: string
  accountType :: string
  mailbox :: string
  source :: Source
  textContent :: "string option"
  htmlContent :: "string option"
  remoteId :: "string option"
  conversationId :: "int option"

record BySource =
  macMail :: int
  imap :: int

record DeduplicationMethods =
  globalMessageId_count :: int
  messageIdHeader_count :: int
  contentHash_count :: int
  fuzzyMatch_count :: int

record DeduplicationStats =
  totalMessages :: int
  uniqueMessages_count :: int
  duplicatesRemoved :: int
  bySource :: BySource
  deduplicationMethods :: DeduplicationMethods

text \<open>The private fields of a \<open>MessageDeduplicator\<close> instance.\<close>

record MessageDeduplicator =
  seenGlobalIds :: "int set"
  seenMessageIds :: "string set"
  seenContentHashes :: "string set"
  fuzzyMatches :: "string \<rightharpoonup> UnifiedMessage"

record DeduplicateResult =
  uniqueMessages :: "UnifiedMessage list"
  stats :: DeduplicationStats

subsection \<open>Keys and hashes\<close>

text \<open>The loop of \<open>generateContentHash\<close>: \<open>hash = ((hash << 5) - hash) + char\<close> followed by
  \<open>hash = hash & hash\<close>, which keeps a signed 32-bit integer.\<close>

definition hashStep :: "32 word \<Rightarrow> char \<Rightarrow> 32 word" where
  "hashStep hash c = (push_bit 5 hash - hash) + of_nat (of_char c)"

text \<open>\<open>[...].filter(Boolean).join('|')\<close>: the empty strings are dropped.\<close>

fun joinBar :: "string list \<Rightarrow> string" where
  "joinBar [] = []"
| "joinBar [x] = x"
| "joinBar (x # y # ys) = x @ ''|'' @ joinBar (y # ys)"

definition generateContentHash :: "UnifiedMessage \<Rightarrow> string" where
  "generateContentHash message =
     (let content = joinBar (filter (\<lambda>x. x \<noteq> [])
            [trim (toLowerCase (subject message)),
             trim (toLowerCase (from_m message)),
             substring0 16 (toISOString (date message)),
             toLowerCase (account message)]);
          hash = fold (\<lambda>c hash. hashStep hash c) content 0
      in toString_int (sint hash))"

definition normalizeSender :: "string \<Rightarrow> string" where
  "normalizeSender sender = trim (removeQuotesSpaces (removeAngle (toLowerCase sender)))"

definition generateFuzzyKey :: "UnifiedMessage \<Rightarrow> string" where
  "generateFuzzyKey message =
     (let normalizedSubject =
            substring0 50 (trim (collapseSpaces (stripReplyPrefix (toLowerCase (subject message)))));
          normalizedSender = trim (removeQuotesSpaces (removeAngle (toLowerCase (from_m message))));
          hourKey = substring0 13 (toISOString (date message))
      in normalizedSubject @ ''|'' @ normalizedSender @ ''|'' @ hourKey)"

subsection \<open>Similarity\<close>

text \<open>The matrix of \<open>calculateSimilarity\<close> is an array of \<open>s2.length + 1\<close> rows of
  \<open>s1.length + 1\<close> cells. The cells start as \<open>null\<close>, written 0 here (what \<open>null\<close> is in an
  addition); every cell is assigned before it is read. All indices of the loops are within
  the bounds of the arrays.\<close>

type_synonym matrix = "nat list list"

definition setCell :: "matrix \<Rightarrow> nat \<Rightarrow> nat \<Rightarrow> nat \<Rightarrow> matrix" where
  "setCell m j i v = m[j := (m ! j)[i := v]]"

definition fillCell :: "string \<Rightarrow> string \<Rightarrow> nat \<Rightarrow> nat \<Rightarrow> matrix \<Rightarrow> matrix" where
  "fillCell s1 s2 j i m =
     (let cost = (if s1 ! (i - 1) = s2 ! (j - 1) then 0 else 1)
      in setCell m j i
           (min (min (m ! (j - 1) ! i + 1) (m ! j ! (i - 1) + 1)) (m ! (j - 1) ! (i - 1) + cost)))"

definition levMatrix :: "string \<Rightarrow> string \<Rightarrow> matrix" where
  "levMatrix s1 s2 =
     (let m0 = replicate (length s2 + 1) (replicate (length s1 + 1) 0);
          m1 = fold (\<lambda>i m. setCell m 0 i i) [0..<length s1 + 1] m0;
          m2 = fold (\<lambda>j m. setCell m j 0 j) [0..<length s2 + 1] m1
      in fold (\<lambda>j m. fold (fillCell s1 s2 j) [1..<length s1 + 1] m) [1..<length s2 + 1] m2)"

text \<open>The quotient is a double in the source. It is the exact rational here: for strings of
  fewer than \<open>2^50\<close> units the rounded quotient of two lengths is below the double 0.8 exactly
  when the exact quotient is below 4/5.\<close>

definition calculateSimilarity :: "string \<Rightarrow> string \<Rightarrow> rat" where
  "calculateSimilarity str1 str2 =
     (let s1 = toLowerCase str1; s2 = toLowerCase str2
      in if s1 = s2 then 1
         else if length s1 = 0 \<or> length s2 = 0 then 0
         else (let m = levMatrix s1 s2;
                   maxLength = max (length s1) (length s2)
               in (of_nat maxLength - of_nat (m ! length s2 ! length s1)) / of_nat maxLength))"

definition isFuzzyMatch :: "UnifiedMessage \<Rightarrow> UnifiedMessage \<Rightarrow> bool" where
  "isFuzzyMatch message1 message2 =
     (if normalizeSender (from_m message1) \<noteq> normalizeSender (from_m message2) then False
      else if calculateSimilarity (subject message1) (subject message2) < 8 / 10 then False
      else if \<bar>date message1 - date message2\<bar> > 24 * 60 * 60 * 1000 then False
      else True)"

subsection \<open>The deduplicator\<close>

definition reset :: "MessageDeduplicator \<Rightarrow> MessageDeduplicator" where
  "reset this = this\<lparr>seenGlobalIds := {}, seenMessageIds := {}, seenContentHashes := {},
                     fuzzyMatches := Map.empty\<rparr>"

text \<open>\<open>message.globalMessageId && ...\<close>: an absent identifier and the number 0 are falsy;
  \<open>message.messageIdHeader && ...\<close>: an absent header and the empty string are falsy.\<close>

definition truthyId :: "int option \<Rightarrow> bool" where
  "truthyId g = (case g of None \<Rightarrow> False | Some n \<Rightarrow> n \<noteq> 0)"

definition truthyStr :: "string option \<Rightarrow> bool" where
  "truthyStr h = (case h of None \<Rightarrow> False | Some s \<Rightarrow> s \<noteq> [])"

definition bumpMethod ::
  "(DeduplicationMethods \<Rightarrow> DeduplicationMethods) \<Rightarrow> DeduplicationStats \<Rightarrow> DeduplicationStats" where
  "bumpMethod f st = st\<lparr>deduplicationMethods := f (deduplicationMethods st)\<rparr>"

text \<open>\<open>isDuplicate\<close> returns its verdict and the statistics it has updated.\<close>

definition isDuplicate ::
  "MessageDeduplicator \<Rightarrow> UnifiedMessage \<Rightarrow> DeduplicationStats \<Rightarrow> bool \<times> DeduplicationStats" where
  "isDuplicate this message st =
     (if truthyId (globalMessageId message) \<and> the (globalMessageId message) \<in> seenGlobalIds this
      then (True, bumpMethod (globalMessageId_count_update (\<lambda>n. n + 1)) st)
      else if truthyStr (messageIdHeader message)
              \<and> the (messageIdHeader message) \<in> seenMessageIds this
      then (True, bumpMethod (messageIdHeader_count_update (\<lambda>n. n + 1)) st)
      else if generateContentHash message \<in> seenContentHashes this
      then (True, bumpMethod (contentHash_count_update (\<lambda>n. n + 1)) st)
      else (case fuzzyMatches this (generateFuzzyKey message) of
              Some existingMessage \<Rightarrow>
                if isFuzzyMatch message existingMessage
                then (True, bumpMethod (fuzzyMatch_count_update (\<lambda>n. n + 1)) st)
                else (False, st)
            | None \<Rightarrow> (False, st)))"

definition recordMessage :: "MessageDeduplicator \<Rightarrow> UnifiedMessage \<Rightarrow> MessageDeduplicator" where
  "recordMessage this message =
     (let this1 = (if truthyId (globalMessageId message)
                   then this\<lparr>seenGlobalIds := insert (the (globalMessageId message)) (seenGlobalIds this)\<rparr>
                   else this);
          this2 = (if truthyStr (messageIdHeader message)
                   then this1\<lparr>seenMessageIds :=
                                 insert (the (messageIdHeader message)) (seenMessageIds this1)\<rparr>
                   else this1);
          this3 = this2\<lparr>seenContentHashes :=
                          insert (generateContentHash message) (seenContentHashes this2)\<rparr>
      in this3\<lparr>fuzzyMatches := (fuzzyMatches this3)(generateFuzzyKey message \<mapsto> message)\<rparr>)"

definition countSource :: "UnifiedMessage \<Rightarrow> DeduplicationStats \<Rightarrow> DeduplicationStats" where
  "countSource message st =
     (if source message = MacMail
      then st\<lparr>bySource := (bySource st)\<lparr>macMail := macMail (bySource st) + 1\<rparr>\<rparr>
      else st\<lparr>bySource := (bySource st)\<lparr>imap := imap (bySource st) + 1\<rparr>\<rparr>)"

text \<open>The body of \<open>for (const message of sortedMessages)\<close>, and the loop.\<close>

definition dedupStep ::
  "UnifiedMessage \<Rightarrow> MessageDeduplicator \<times> UnifiedMessage list \<times> DeduplicationStats
     \<Rightarrow> MessageDeduplicator \<times> UnifiedMessage list \<times> DeduplicationStats" where
  "dedupStep message acc =
     (case acc of (this, uniq, st) \<Rightarrow>
        (case isDuplicate this message st of (dup, st1) \<Rightarrow>
           if \<not> dup then (recordMessage this message, uniq @ [message], countSource message st1)
           else (this, uniq, countSource message st1)))"

fun dedupLoop ::
  "UnifiedMessage list \<Rightarrow> MessageDeduplicator \<times> UnifiedMessage list \<times> DeduplicationStats
     \<Rightarrow> MessageDeduplicator \<times> UnifiedMessage list \<times> DeduplicationStats" where
  "dedupLoop [] acc = acc"
| "dedupLoop (message # rest) acc = dedupLoop rest (dedupStep message acc)"

text \<open>\<open>[...messages].sort((a, b) => b.date.getTime() - a.date.getTime())\<close>: the sort of the
  language is stable, so it is the stable sort by descending date.\<close>

definition sortByDateDesc :: "UnifiedMessage list \<Rightarrow> UnifiedMessage list" where
  "sortByDateDesc messages = sort_key (\<lambda>m. - date m) messages"

definition initialStats :: "UnifiedMessage list \<Rightarrow> DeduplicationStats" where
  "initialStats messages =
     \<lparr>totalMessages = int (length messages), uniqueMessages_count = 0, duplicatesRemoved = 0,
      bySource = \<lparr>macMail = 0, imap = 0\<rparr>,
      deduplicationMethods = \<lparr>globalMessageId_count = 0, messageIdHeader_count = 0,
                              contentHash_count = 0, fuzzyMatch_count = 0\<rparr>\<rparr>"

text \<open>\<open>deduplicate\<close> returns its result and the instance as the call leaves it.\<close>

definition deduplicate ::
  "MessageDeduplicator \<Rightarrow> UnifiedMessage list \<Rightarrow> DeduplicateResult \<times> MessageDeduplicator" where
  "deduplicate this messages =
     (case dedupLoop (sortByDateDesc messages) (reset this, [], initialStats messages) of
        (this1, uniq, st) \<Rightarrow>
          (let st1 = st\<lparr>uniqueMessages_count := int (length uniq)\<rparr>;
               st2 = st1\<lparr>duplicatesRemoved := totalMessages st1 - uniqueMessages_count st1\<rparr>
           in (\<lparr>uniqueMessages = uniq, stats = st2\<rparr>, this1)))"

subsection \<open>Groups of potential duplicates\<close>






subsection \<open>The result cache\<close>

text \<open>
  The class \<open>MailCache\<close> keeps four SQLite tables. A table is the list of its rows in the
  order of their row ids; \<open>INSERT OR REPLACE\<close> deletes the row with the same primary key
  and appends the new one; a prepared \<open>SELECT\<close> run with \<open>get\<close> gives the first row that
  satisfies its \<open>WHERE\<close> clause, with \<open>all\<close> every such row; \<open>DELETE ... WHERE\<close> keeps the
  rows that do not satisfy the clause. \<open>Date.now()\<close> is the argument \<open>now\<close> of an operation.
  The JSON text of a list of ids is the list (\<open>JSON.parse\<close> of \<open>JSON.stringify\<close> of a
  list of strings is that list). The interfaces \<open>MailMessage\<close> and \<open>MailFolder\<close> have the
  fields that the cache reads and writes.
\<close>

definition insertOrReplace :: "('r \<Rightarrow> 'k) \<Rightarrow> 'r \<Rightarrow> 'r list \<Rightarrow> 'r list" where
  "insertOrReplace key row table = filter (\<lambda>r. key r \<noteq> key row) table @ [row]"

definition selectGet :: "('r \<Rightarrow> bool) \<Rightarrow> 'r list \<Rightarrow> 'r option" where
  "selectGet cond table = find cond table"

definition selectAll :: "('r \<Rightarrow> bool) \<Rightarrow> 'r list \<Rightarrow> 'r list" where
  "selectAll cond table = filter cond table"

definition deleteWhere :: "('r \<Rightarrow> bool) \<Rightarrow> 'r list \<Rightarrow> 'r list" where
  "deleteWhere cond table = filter (\<lambda>r. \<not> cond r) table"

record MailFolder =
  name :: string
  accountName :: string
  messageCount :: int
  unreadCount :: int

record FolderRow =
  f_name :: string
  f_account_name :: string
  f_message_count :: int
  f_unread_count :: int
  f_cached_at :: int

record MailMessage =
  mm_id :: string
  mm_subject :: string
  mm_sender :: string
  mm_senderName :: "string option"
  mm_recipients :: "string list"
  mm_dateSent :: string
  mm_dateReceived :: string
  mm_content :: "string option"
  mm_snippet :: "string option"
  mm_mailbox :: string
  mm_accountName :: string
  mm_isRead :: bool
  mm_isFlagged :: bool
  mm_hasAttachments :: bool

record MessageRow =
  m_id :: string
  m_subject :: string
  m_sender :: string
  m_sender_name :: "string option"
  m_recipients :: "string list"
  m_date_sent :: string
  m_date_received :: string
  m_content :: "string option"
  m_snippet :: "string option"
  m_mailbox :: string
  m_account_name :: string
  m_is_read :: int
  m_is_flagged :: int
  m_has_attachments :: int
  m_cached_at :: int

record MessageListRow =
  l_cache_key :: string
  l_message_ids :: "string list"
  l_total_count :: int
  l_cached_at :: int

record SearchRow =
  s_query :: string
  s_search_in :: string
  s_result_ids :: "string list"
  s_cached_at :: int

record MessageList =
  messageIds :: "string list"
  totalCount :: int

record MailCache =
  folders_table :: "FolderRow list"
  messages_table :: "MessageRow list"
  message_lists_table :: "MessageListRow list"
  search_cache_table :: "SearchRow list"

definition FOLDER_TTL :: int where "FOLDER_TTL = 60 * 60 * 1000"
definition MESSAGE_LIST_TTL :: int where "MESSAGE_LIST_TTL = 5 * 60 * 1000"
definition MESSAGE_CONTENT_TTL :: int where "MESSAGE_CONTENT_TTL = 24 * 60 * 60 * 1000"
definition SEARCH_TTL :: int where "SEARCH_TTL = 2 * 60 * 1000"

text \<open>\<open>x || null\<close> on an optional string: absent and empty both give \<open>null\<close>.\<close>

definition orNull :: "string option \<Rightarrow> string option" where
  "orNull x = (case x of None \<Rightarrow> None | Some s \<Rightarrow> if s = [] then None else Some s)"

definition folderRow :: "int \<Rightarrow> MailFolder \<Rightarrow> FolderRow" where
  "folderRow now folder =
     \<lparr>f_name = name folder, f_account_name = accountName folder,
      f_message_count = messageCount folder, f_unread_count = unreadCount folder,
      f_cached_at = now\<rparr>"

text \<open>\<open>cacheFolders\<close> reads the clock once and inserts every folder inside one
  transaction.\<close>

definition cacheFolders :: "MailCache \<Rightarrow> MailFolder list \<Rightarrow> int \<Rightarrow> MailCache" where
  "cacheFolders c fs now =
     c\<lparr>folders_table := fold (\<lambda>folder t. insertOrReplace (\<lambda>r. (f_name r, f_account_name r))
                                  (folderRow now folder) t) fs (folders_table c)\<rparr>"

definition getCachedFolders :: "MailCache \<Rightarrow> int \<Rightarrow> MailFolder list option" where
  "getCachedFolders c now =
     (let minTime = now - FOLDER_TTL;
          rows = selectAll (\<lambda>r. f_cached_at r > minTime) (folders_table c)
      in if length rows = 0 then None
         else Some (map (\<lambda>row. \<lparr>name = f_name row, accountName = f_account_name row,
                                   messageCount = f_message_count row,
                                   unreadCount = f_unread_count row\<rparr>) rows))"

text \<open>The row that \<open>cacheMessage\<close> binds to its \<open>INSERT OR REPLACE\<close>, and the object that
  \<open>getCachedMessage\<close> builds from a row.\<close>

definition messageRow :: "int \<Rightarrow> MailMessage \<Rightarrow> MessageRow" where
  "messageRow now message =
     \<lparr>m_id = mm_id message, m_subject = mm_subject message, m_sender = mm_sender message,
      m_sender_name = orNull (mm_senderName message),
      m_recipients = mm_recipients message,
      m_date_sent = mm_dateSent message, m_date_received = mm_dateReceived message,
      m_content = orNull (mm_content message), m_snippet = orNull (mm_snippet message),
      m_mailbox = mm_mailbox message, m_account_name = mm_accountName message,
      m_is_read = (if mm_isRead message then 1 else 0),
      m_is_flagged = (if mm_isFlagged message then 1 else 0),
      m_has_attachments = (if mm_hasAttachments message then 1 else 0),
      m_cached_at = now\<rparr>"

definition cacheMessage :: "MailCache \<Rightarrow> MailMessage \<Rightarrow> int \<Rightarrow> MailCache" where
  "cacheMessage c message now =
     c\<lparr>messages_table := insertOrReplace m_id (messageRow now message) (messages_table c)\<rparr>"

definition messageOfRow :: "bool \<Rightarrow> MessageRow \<Rightarrow> MailMessage" where
  "messageOfRow includeContent row =
     \<lparr>mm_id = m_id row, mm_subject = m_subject row, mm_sender = m_sender row,
      mm_senderName = m_sender_name row, mm_recipients = m_recipients row,
      mm_dateSent = m_date_sent row, mm_dateReceived = m_date_received row,
      mm_content = (if includeContent then m_content row else None),
      mm_snippet = m_snippet row, mm_mailbox = m_mailbox row,
      mm_accountName = m_account_name row,
      mm_isRead = (m_is_read row = 1), mm_isFlagged = (m_is_flagged row = 1),
      mm_hasAttachments = (m_has_attachments row = 1)\<rparr>"

definition getCachedMessage :: "MailCache \<Rightarrow> string \<Rightarrow> bool \<Rightarrow> int \<Rightarrow> MailMessage option" where
  "getCachedMessage c ident includeContent now =
     (let ttl = (if includeContent then MESSAGE_CONTENT_TTL else MESSAGE_LIST_TTL);
          minTime = now - ttl
      in case selectGet (\<lambda>r. m_id r = ident \<and> m_cached_at r > minTime) (messages_table c) of
           None \<Rightarrow> None
         | Some row \<Rightarrow> Some (messageOfRow includeContent row))"

definition cacheMessageList :: "MailCache \<Rightarrow> string \<Rightarrow> string list \<Rightarrow> int \<Rightarrow> int \<Rightarrow> MailCache" where
  "cacheMessageList c cacheKey ids totalCnt now =
     c\<lparr>message_lists_table := insertOrReplace l_cache_key
        \<lparr>l_cache_key = cacheKey, l_message_ids = ids, l_total_count = totalCnt, l_cached_at = now\<rparr>
        (message_lists_table c)\<rparr>"

definition getCachedMessageList :: "MailCache \<Rightarrow> string \<Rightarrow> int \<Rightarrow> MessageList option" where
  "getCachedMessageList c cacheKey now =
     (let minTime = now - MESSAGE_LIST_TTL
      in case selectGet (\<lambda>r. l_cache_key r = cacheKey \<and> l_cached_at r > minTime)
                (message_lists_table c) of
           None \<Rightarrow> None
         | Some row \<Rightarrow> Some \<lparr>messageIds = l_message_ids row, totalCount = l_total_count row\<rparr>)"

definition cacheSearchResults ::
  "MailCache \<Rightarrow> string \<Rightarrow> string \<Rightarrow> string list \<Rightarrow> int \<Rightarrow> MailCache" where
  "cacheSearchResults c query searchIn ids now =
     c\<lparr>search_cache_table := insertOrReplace (\<lambda>r. (s_query r, s_search_in r))
        \<lparr>s_query = query, s_search_in = searchIn, s_result_ids = ids, s_cached_at = now\<rparr>
        (search_cache_table c)\<rparr>"

definition getCachedSearchResults ::
  "MailCache \<Rightarrow> string \<Rightarrow> string \<Rightarrow> int \<Rightarrow> string list option" where
  "getCachedSearchResults c query searchIn now =
     (let minTime = now - SEARCH_TTL
      in case selectGet (\<lambda>r. s_query r = query \<and> s_search_in r = searchIn
                               \<and> s_cached_at r > minTime) (search_cache_table c) of
           None \<Rightarrow> None
         | Some row \<Rightarrow> Some (s_result_ids row))"

text \<open>\<open>cleanup\<close>: four \<open>DELETE\<close> statements with the same bound, then \<open>VACUUM\<close>, which
  changes no row.\<close>

definition cleanup :: "MailCache \<Rightarrow> int \<Rightarrow> MailCache" where
  "cleanup c now =
     (let oneDayAgo = now - (24 * 60 * 60 * 1000)
      in c\<lparr>folders_table := deleteWhere (\<lambda>r. f_cached_at r < oneDayAgo) (folders_table c),
           messages_table := deleteWhere (\<lambda>r. m_cached_at r < oneDayAgo) (messages_table c),
           message_lists_table := deleteWhere (\<lambda>r. l_cached_at r < oneDayAgo) (message_lists_table c),
           search_cache_table := deleteWhere (\<lambda>r. s_cached_at r < oneDayAgo) (search_cache_table c)\<rparr>)"

subsection \<open>Reference definitions\<close>

text \<open>The four strategies in their fixed priority order, what it means for one of them to
  match a message against the state of the deduplicator, and the first strategy that
  matches. They state the attribution rule in the words of the specification and are
  compared with \<open>isDuplicate\<close> below.\<close>

datatype Strategy = ByGlobalId | ByHeaderId | ByContentHash | ByFuzzyMatch

fun strategyMatches :: "Strategy \<Rightarrow> MessageDeduplicator \<Rightarrow> UnifiedMessage \<Rightarrow> bool" where
  "strategyMatches ByGlobalId this m =
     (case globalMessageId m of None \<Rightarrow> False | Some g \<Rightarrow> g \<noteq> 0 \<and> g \<in> seenGlobalIds this)"
| "strategyMatches ByHeaderId this m =
     (case messageIdHeader m of None \<Rightarrow> False | Some h \<Rightarrow> h \<noteq> [] \<and> h \<in> seenMessageIds this)"
| "strategyMatches ByContentHash this m = (generateContentHash m \<in> seenContentHashes this)"
| "strategyMatches ByFuzzyMatch this m =
     (case fuzzyMatches this (generateFuzzyKey m) of
        None \<Rightarrow> False | Some existing \<Rightarrow> isFuzzyMatch m existing)"

definition firstMatch :: "MessageDeduplicator \<Rightarrow> UnifiedMessage \<Rightarrow> Strategy option" where
  "firstMatch this m =
     find (\<lambda>k. strategyMatches k this m) [ByGlobalId, ByHeaderId, ByContentHash, ByFuzzyMatch]"

fun countUnder :: "Strategy \<Rightarrow> DeduplicationStats \<Rightarrow> DeduplicationStats" where
  "countUnder ByGlobalId st = bumpMethod (globalMessageId_count_update (\<lambda>n. n + 1)) st"
| "countUnder ByHeaderId st = bumpMethod (messageIdHeader_count_update (\<lambda>n. n + 1)) st"
| "countUnder ByContentHash st = bumpMethod (contentHash_count_update (\<lambda>n. n + 1)) st"
| "countUnder ByFuzzyMatch st = bumpMethod (fuzzyMatch_count_update (\<lambda>n. n + 1)) st"

text \<open>The sum of the four counters of \<open>deduplicationMethods\<close>.\<close>

definition methodsTotal :: "DeduplicationStats \<Rightarrow> int" where
  "methodsTotal st =
     globalMessageId_count (deduplicationMethods st)
     + messageIdHeader_count (deduplicationMethods st)
     + contentHash_count (deduplicationMethods st)
     + fuzzyMatch_count (deduplicationMethods st)"

text \<open>The Levenshtein distance by its recurrence on the last characters of the two
  strings.\<close>

function levenshtein :: "string \<Rightarrow> string \<Rightarrow> nat" where
  "levenshtein a b =
     (if a = [] then length b
      else if b = [] then length a
      else min (min (levenshtein a (butlast b) + 1) (levenshtein (butlast a) b + 1))
               (levenshtein (butlast a) (butlast b) + (if last a = last b then 0 else 1)))"
  by pat_completeness auto
termination
  by (relation "measure (\<lambda>(a, b). length a + length b)") (auto simp: neq_Nil_conv)

declare levenshtein.simps [simp del]

subsection \<open>Example values\<close>

definition emptyDeduplicator :: MessageDeduplicator where
  "emptyDeduplicator =
     \<lparr>seenGlobalIds = {}, seenMessageIds = {}, seenContentHashes = {}, fuzzyMatches = Map.empty\<rparr>"

text \<open>A message with no identifiers; the examples set the fields they are about. The
  time \<open>exampleT\<close> is 2023-11-14T22:13:20Z.\<close>

definition exampleT :: int where
  "exampleT = 1700000000000"

definition baseMessage :: UnifiedMessage where
  "baseMessage =
     \<lparr>id_m = ''m'', globalMessageId = None, messageIdHeader = None, subject = ''Hi'',
      from_m = ''a@x.com'', date = exampleT, isRead = False, isFlagged = False,
      hasAttachments = False, account = ''work'', accountType = ''IMAP'', mailbox = ''INBOX'',
      source = MacMail, textContent = None, htmlContent = None, remoteId = None,
      conversationId = None\<rparr>"

definition hiEarly :: UnifiedMessage where
  "hiEarly = baseMessage\<lparr>id_m := ''m1'', globalMessageId := Some 42\<rparr>"

definition hiLate :: UnifiedMessage where
  "hiLate = baseMessage\<lparr>id_m := ''m2'', globalMessageId := Some 42, date := exampleT + 3600000\<rparr>"

subsection \<open>Auxiliary functions of the proofs\<close>

text \<open>The messages that the loop of \<open>deduplicate\<close> accepts when it starts in a given
  state, as a function of the state and the list alone.\<close>

fun kept :: "MessageDeduplicator \<Rightarrow> UnifiedMessage list \<Rightarrow> UnifiedMessage list" where
  "kept this [] = []"
| "kept this (m # ms) =
     (if firstMatch this m \<noteq> None then kept this ms else m # kept (recordMessage this m) ms)"

text \<open>A message with a falsy identifier (the global id 0, the empty header) replaced by
  an absent one, and the relation between two states of the deduplicator that have seen the
  same identifiers and hashes and hold, under every fuzzy key, the same message up to that
  replacement.\<close>

definition withoutFalsyIds :: "UnifiedMessage \<Rightarrow> UnifiedMessage" where
  "withoutFalsyIds m =
     m\<lparr>globalMessageId := (if globalMessageId m = Some 0 then None else globalMessageId m),
       messageIdHeader := (if messageIdHeader m = Some [] then None else messageIdHeader m)\<rparr>"

definition sameSeen :: "MessageDeduplicator \<Rightarrow> MessageDeduplicator \<Rightarrow> bool" where
  "sameSeen t t' =
     (seenGlobalIds t' = seenGlobalIds t \<and> seenMessageIds t' = seenMessageIds t
      \<and> seenContentHashes t' = seenContentHashes t
      \<and> fuzzyMatches t' = map_option withoutFalsyIds \<circ> fuzzyMatches t)"

text \<open>Two different messages that both carry the global id 0 and an empty header.\<close>

definition zeroIdA :: UnifiedMessage where
  "zeroIdA = baseMessage\<lparr>id_m := ''z1'', globalMessageId := Some 0, messageIdHeader := Some [],
                         subject := ''Invoice''\<rparr>"

definition zeroIdB :: UnifiedMessage where
  "zeroIdB = baseMessage\<lparr>id_m := ''z2'', globalMessageId := Some 0, messageIdHeader := Some [],
                         subject := ''Lunch on Friday'', date := exampleT + 7200000\<rparr>"







definition replyReview :: UnifiedMessage where
  "replyReview = baseMessage\<lparr>id_m := ''r3'', subject := ''Re: Budget review 2024''\<rparr>"

definition review :: UnifiedMessage where
  "review = baseMessage\<lparr>id_m := ''r4'', subject := ''Budget review 2024'',
                        date := exampleT + 600000\<rparr>"

text \<open>The shape of the matrix of \<open>calculateSimilarity\<close> for strings of lengths \<open>n1\<close> and
  \<open>n2\<close>.\<close>

definition shaped :: "nat \<Rightarrow> nat \<Rightarrow> matrix \<Rightarrow> bool" where
  "shaped n1 n2 m = (length m = Suc n2 \<and> (\<forall>j\<le>n2. length (m ! j) = Suc n1))"




subsection \<open>Auxiliary definitions for the cache\<close>

text \<open>The primary keys of the four tables: no two rows of a table have the same key.\<close>

definition wellFormed :: "MailCache \<Rightarrow> bool" where
  "wellFormed c =
     (distinct (map (\<lambda>r. (f_name r, f_account_name r)) (folders_table c))
      \<and> distinct (map m_id (messages_table c))
      \<and> distinct (map l_cache_key (message_lists_table c))
      \<and> distinct (map (\<lambda>r. (s_query r, s_search_in r)) (search_cache_table c)))"

definition emptyCache :: MailCache where
  "emptyCache = \<lparr>folders_table = [], messages_table = [], message_lists_table = [],
                  search_cache_table = []\<rparr>"

text \<open>A message as it is read back from its row: an empty optional string has become an
  absent one on the way in, and the content is left out unless it is asked for.\<close>

definition readBack :: "bool \<Rightarrow> MailMessage \<Rightarrow> MailMessage" where
  "readBack includeContent message =
     message\<lparr>mm_senderName := orNull (mm_senderName message),
             mm_content := (if includeContent then orNull (mm_content message) else None),
             mm_snippet := orNull (mm_snippet message)\<rparr>"

definition exampleMail :: MailMessage where
  "exampleMail =
     \<lparr>mm_id = ''msg-1'', mm_subject = ''Budget'', mm_sender = ''a@x.com'',
      mm_senderName = Some ''Ann'', mm_recipients = [''b@x.com''],
      mm_dateSent = ''2023-11-14T22:13:20Z'', mm_dateReceived = ''2023-11-14T22:13:25Z'',
      mm_content = Some ''Numbers attached.'', mm_snippet = Some [], mm_mailbox = ''INBOX'',
      mm_accountName = ''work'', mm_isRead = True, mm_isFlagged = False,
      mm_hasAttachments = True\<rparr>"

text \<open>A cache with rows written at three times: a search result at 0, a message list at
  1000 and a message at 86000000.\<close>

definition exampleCache :: MailCache where
  "exampleCache =
     cacheMessage
       (cacheMessageList
          (cacheSearchResults emptyCache ''budget'' ''subject'' [''msg-1''] 0)
          ''INBOX:0'' [''msg-1'', ''msg-2''] 2 1000)
       exampleMail 86000000"

section \<open>Basic facts about the deduplicator\<close>

text \<open>Facts that several of the later sections use: how the counters move in one step and
  over the loop, \<open>isDuplicate\<close> as the first matching strategy, and the unique list as the
  function \<open>kept\<close> of the sorted input.\<close>

lemma isDuplicate_total:
  "methodsTotal (snd (isDuplicate this m st)) = methodsTotal st + (if fst (isDuplicate this m st) then 1 else 0)"
  by (simp add: isDuplicate_def methodsTotal_def bumpMethod_def split: option.split)

lemma isDuplicate_totalMessages:
  "totalMessages (snd (isDuplicate this m st)) = totalMessages st"
  by (simp add: isDuplicate_def bumpMethod_def split: option.split)

lemma countSource_keeps:
  "methodsTotal (countSource m st) = methodsTotal st"
  "totalMessages (countSource m st) = totalMessages st"
  by (simp_all add: countSource_def methodsTotal_def)

lemma dedupStep_counts:
  assumes "dedupStep m (this, uniq, st) = (this', uniq', st')"
  shows "int (length uniq') + methodsTotal st' = int (length uniq) + methodsTotal st + 1"
    and "totalMessages st' = totalMessages st"
  using assms isDuplicate_total [of this m st] isDuplicate_totalMessages [of this m st]
  by (auto simp: dedupStep_def countSource_keeps split: prod.splits if_splits)

lemma dedupLoop_counts:
  "dedupLoop xs (this, uniq, st) = (this', uniq', st') \<Longrightarrow>
     int (length uniq') + methodsTotal st' = int (length uniq) + methodsTotal st + int (length xs)
     \<and> totalMessages st' = totalMessages st"
proof (induction xs arbitrary: this uniq st)
  case Nil
  then show ?case by simp
next
  case (Cons m xs)
  obtain t1 u1 s1 where step: "dedupStep m (this, uniq, st) = (t1, u1, s1)"
    by (cases "dedupStep m (this, uniq, st)") auto
  with Cons.prems have "dedupLoop xs (t1, u1, s1) = (this', uniq', st')" by simp
  from Cons.IH [OF this] dedupStep_counts [OF step] show ?case by simp
qed

lemma isDuplicate_firstMatch:
  "isDuplicate t m st =
     (case firstMatch t m of None \<Rightarrow> (False, st) | Some k \<Rightarrow> (True, countUnder k st))"
  by (simp add: isDuplicate_def firstMatch_def truthyId_def truthyStr_def
      split: option.split)

lemma reset_empty: "reset this = emptyDeduplicator"
  by (simp add: reset_def emptyDeduplicator_def)

lemma dedupStep_kept:
  "dedupStep m (this, uniq, st) =
     (if firstMatch this m \<noteq> None
      then (this, uniq, countSource m (snd (isDuplicate this m st)))
      else (recordMessage this m, uniq @ [m], countSource m (snd (isDuplicate this m st))))"
  by (simp add: dedupStep_def isDuplicate_firstMatch split: option.split)

lemma dedupLoop_kept:
  "fst (snd (dedupLoop xs (this, uniq, st))) = uniq @ kept this xs"
  by (induction xs arbitrary: this uniq st) (simp_all add: dedupStep_kept)

lemma uniqueMessages_kept:
  "uniqueMessages (fst (deduplicate this msgs)) = kept emptyDeduplicator (sortByDateDesc msgs)"
  using dedupLoop_kept [of "sortByDateDesc msgs" "reset this" "[]" "initialStats msgs"]
  by (auto simp: deduplicate_def reset_empty Let_def split: prod.splits)

lemma deduplicate_fields:
  "totalMessages (stats (fst (deduplicate this msgs))) = int (length msgs)"
  "uniqueMessages_count (stats (fst (deduplicate this msgs)))
     = int (length (uniqueMessages (fst (deduplicate this msgs))))"
  "duplicatesRemoved (stats (fst (deduplicate this msgs)))
     = int (length msgs) - int (length (uniqueMessages (fst (deduplicate this msgs))))"
proof -
  obtain t u s where loop:
    "dedupLoop (sortByDateDesc msgs) (reset this, [], initialStats msgs) = (t, u, s)"
    by (cases "dedupLoop (sortByDateDesc msgs) (reset this, [], initialStats msgs)") auto
  from dedupLoop_counts [OF loop] have "totalMessages s = int (length msgs)"
    by (simp add: initialStats_def)
  then show
    "totalMessages (stats (fst (deduplicate this msgs))) = int (length msgs)"
    "uniqueMessages_count (stats (fst (deduplicate this msgs)))
       = int (length (uniqueMessages (fst (deduplicate this msgs))))"
    "duplicatesRemoved (stats (fst (deduplicate this msgs)))
       = int (length msgs) - int (length (uniqueMessages (fst (deduplicate this msgs))))"
    by (simp_all add: deduplicate_def loop Let_def)
qed




section \<open>Basic facts about the similarity\<close>

text \<open>The matrix that \<open>calculateSimilarity\<close> fills row by row holds, in row \<open>j\<close> and column
  \<open>i\<close>, the Levenshtein distance between the first \<open>i\<close> characters of the first string
  and the first \<open>j\<close> characters of the second. The distance is symmetric, and so are the
  similarity and the fuzzy match.\<close>

lemma levenshtein_Nil [simp]: "levenshtein [] b = length b" "levenshtein a [] = length a"
  by (simp_all add: levenshtein.simps)

lemma levenshtein_snoc:
  "levenshtein (xs @ [x]) (ys @ [y])
     = min (min (levenshtein (xs @ [x]) ys + 1) (levenshtein xs (ys @ [y]) + 1))
           (levenshtein xs ys + (if x = y then 0 else 1))"
  by (subst levenshtein.simps) simp

lemma levenshtein_sym: "levenshtein a b = levenshtein b a"
proof (induction a b rule: levenshtein.induct)
  case (1 a b)
  show ?case
  proof (cases "a = [] \<or> b = []")
    case True
    then show ?thesis by auto
  next
    case False
    then have ne: "a \<noteq> []" "b \<noteq> []" by simp_all
    from "1.IH" [OF ne] show ?thesis
      by (subst levenshtein.simps, subst (2) levenshtein.simps) (simp add: ne min.commute eq_commute min.left_commute)
  qed
qed

lemma levenshtein_take:
  assumes "0 < i" "i \<le> length s1" "0 < j" "j \<le> length s2"
  shows "levenshtein (take i s1) (take j s2)
     = min (min (levenshtein (take i s1) (take (j - 1) s2) + 1)
                (levenshtein (take (i - 1) s1) (take j s2) + 1))
           (levenshtein (take (i - 1) s1) (take (j - 1) s2)
              + (if s1 ! (i - 1) = s2 ! (j - 1) then 0 else 1))"
proof -
  from assms have a: "take i s1 = take (i - 1) s1 @ [s1 ! (i - 1)]"
    by (metis Suc_pred' less_le_trans not_less order_refl take_Suc_conv_app_nth Suc_le_eq)
  from assms have b: "take j s2 = take (j - 1) s2 @ [s2 ! (j - 1)]"
    by (metis Suc_pred' less_le_trans not_less order_refl take_Suc_conv_app_nth Suc_le_eq)
  have "levenshtein (take (i - 1) s1 @ [s1 ! (i - 1)]) (take (j - 1) s2 @ [s2 ! (j - 1)])
     = min (min (levenshtein (take (i - 1) s1 @ [s1 ! (i - 1)]) (take (j - 1) s2) + 1)
                (levenshtein (take (i - 1) s1) (take (j - 1) s2 @ [s2 ! (j - 1)]) + 1))
           (levenshtein (take (i - 1) s1) (take (j - 1) s2)
              + (if s1 ! (i - 1) = s2 ! (j - 1) then 0 else 1))"
    by (rule levenshtein_snoc)
  then show ?thesis
    by (simp only: a [symmetric] b [symmetric])
qed

lemma fold_upt_invariant:
  "a \<le> b \<Longrightarrow> P a m \<Longrightarrow> (\<forall>k m. a \<le> k \<and> k < b \<and> P k m \<longrightarrow> P (Suc k) (f k m))
     \<Longrightarrow> P b (fold f [a..<b] m)"
proof (induction b)
  case 0
  then show ?case by simp
next
  case (Suc b)
  show ?case
  proof (cases "a = Suc b")
    case True
    with Suc.prems show ?thesis by simp
  next
    case False
    with Suc.prems have le: "a \<le> b" by simp
    from Suc.prems have "\<forall>k m. a \<le> k \<and> k < b \<and> P k m \<longrightarrow> P (Suc k) (f k m)" by simp
    with Suc.IH le Suc.prems(2) have "P b (fold f [a..<b] m)" by blast
    with Suc.prems(3) le have "P (Suc b) (f b (fold f [a..<b] m))" by simp
    with le show ?thesis by simp
  qed
qed

lemma shaped_setCell: "shaped n1 n2 m \<Longrightarrow> shaped n1 n2 (setCell m j i v)"
  by (cases "j < length m") (auto simp: shaped_def setCell_def nth_list_update)

lemma nth_setCell:
  "shaped n1 n2 m \<Longrightarrow> j \<le> n2 \<Longrightarrow> i \<le> n1 \<Longrightarrow> j' \<le> n2 \<Longrightarrow>
     setCell m j i v ! j' ! i' = (if j' = j \<and> i' = i then v else m ! j' ! i')"
  by (auto simp: shaped_def setCell_def nth_list_update)

lemma matrix_borders:
  fixes n1 n2 :: nat
  defines "m0 \<equiv> replicate (Suc n2) (replicate (Suc n1) (0::nat))"
  defines "m1 \<equiv> fold (\<lambda>i m. setCell m 0 i i) [0..<Suc n1] m0"
  defines "m2 \<equiv> fold (\<lambda>j m. setCell m j 0 j) [0..<Suc n2] m1"
  shows "shaped n1 n2 m2 \<and> (\<forall>i\<le>n1. m2 ! 0 ! i = i) \<and> (\<forall>j\<le>n2. m2 ! j ! 0 = j)"
proof -
  let ?P = "\<lambda>k m. shaped n1 n2 m \<and> (\<forall>i<k. m ! 0 ! i = i)"
  have "?P (Suc n1) (fold (\<lambda>i m. setCell m 0 i i) [0..<Suc n1] m0)"
  proof (rule fold_upt_invariant [where P = ?P])
    show "0 \<le> Suc n1" by simp
    show "?P 0 m0" by (simp add: shaped_def m0_def less_Suc_eq_le del: replicate.simps)
    show "\<forall>k m. 0 \<le> k \<and> k < Suc n1 \<and> ?P k m \<longrightarrow> ?P (Suc k) (setCell m 0 k k)"
      by (auto simp: shaped_setCell nth_setCell [of n1 n2] less_Suc_eq)
  qed
  then have one: "shaped n1 n2 m1" "\<forall>i\<le>n1. m1 ! 0 ! i = i"
    by (simp_all add: m1_def less_Suc_eq_le)
  let ?Q = "\<lambda>k m. shaped n1 n2 m \<and> (\<forall>i\<le>n1. m ! 0 ! i = i) \<and> (\<forall>j<k. m ! j ! 0 = j)"
  have "?Q (Suc n2) (fold (\<lambda>j m. setCell m j 0 j) [0..<Suc n2] m1)"
  proof (rule fold_upt_invariant [where P = ?Q])
    show "0 \<le> Suc n2" by simp
    show "?Q 0 m1" using one by simp
    show "\<forall>k m. 0 \<le> k \<and> k < Suc n2 \<and> ?Q k m \<longrightarrow> ?Q (Suc k) (setCell m k 0 k)"
      by (auto simp: shaped_setCell nth_setCell [of n1 n2] less_Suc_eq)
  qed
  then show ?thesis
    by (simp add: m2_def less_Suc_eq_le)
qed

lemma fillCell_row:
  assumes j: "0 < j" "j \<le> length s2"
    and start: "shaped (length s1) (length s2) m"
      "\<forall>j' i'. j' \<le> length s2 \<and> i' \<le> length s1 \<and> (j' < j \<or> i' = 0)
         \<longrightarrow> m ! j' ! i' = levenshtein (take i' s1) (take j' s2)"
  shows "shaped (length s1) (length s2) (fold (fillCell s1 s2 j) [1..<Suc (length s1)] m)
     \<and> (\<forall>j' i'. j' \<le> length s2 \<and> i' \<le> length s1 \<and> (j' < Suc j \<or> i' = 0)
         \<longrightarrow> fold (fillCell s1 s2 j) [1..<Suc (length s1)] m ! j' ! i'
             = levenshtein (take i' s1) (take j' s2))"
proof -
  let ?n1 = "length s1" and ?n2 = "length s2"
  let ?D = "\<lambda>i' j'. levenshtein (take i' s1) (take j' s2)"
  let ?P = "\<lambda>i m. shaped ?n1 ?n2 m
     \<and> (\<forall>j' i'. j' \<le> ?n2 \<and> i' \<le> ?n1 \<and> (j' < j \<or> i' = 0 \<or> (j' = j \<and> i' < i))
           \<longrightarrow> m ! j' ! i' = ?D i' j')"
  let ?mm = "fold (fillCell s1 s2 j) [1..<Suc ?n1] m"
  have "?P (Suc ?n1) ?mm"
  proof (rule fold_upt_invariant [where P = ?P])
    show "1 \<le> Suc ?n1" by simp
    show "?P 1 m" using start by auto
    show "\<forall>i m. 1 \<le> i \<and> i < Suc ?n1 \<and> ?P i m \<longrightarrow> ?P (Suc i) (fillCell s1 s2 j i m)"
    proof (intro allI impI)
      fix i m
      assume h: "1 \<le> i \<and> i < Suc ?n1 \<and> ?P i m"
      then have i: "0 < i" "i \<le> ?n1" and sh: "shaped ?n1 ?n2 m"
        and inv: "\<And>j' i'. j' \<le> ?n2 \<Longrightarrow> i' \<le> ?n1 \<Longrightarrow> j' < j \<or> i' = 0 \<or> (j' = j \<and> i' < i)
           \<Longrightarrow> m ! j' ! i' = ?D i' j'"
        by auto
      have up: "m ! (j - 1) ! i = ?D i (j - 1)"
        using inv [of "j - 1" i] i j by simp
      have left: "m ! j ! (i - 1) = ?D (i - 1) j"
        using inv [of j "i - 1"] i j by simp
      have diag: "m ! (j - 1) ! (i - 1) = ?D (i - 1) (j - 1)"
        using inv [of "j - 1" "i - 1"] i j by simp
      have new: "fillCell s1 s2 j i m = setCell m j i (?D i j)"
        by (simp only: fillCell_def Let_def up left diag levenshtein_take [OF i j])
      show "?P (Suc i) (fillCell s1 s2 j i m)"
        unfolding new using sh i j inv
        by (auto simp: shaped_setCell nth_setCell [of ?n1 ?n2] less_Suc_eq)
    qed
  qed
  then have sh: "shaped ?n1 ?n2 ?mm"
    and inv: "\<And>j' i'. j' \<le> ?n2 \<Longrightarrow> i' \<le> ?n1
       \<Longrightarrow> j' < j \<or> i' = 0 \<or> (j' = j \<and> i' < Suc ?n1) \<Longrightarrow> ?mm ! j' ! i' = ?D i' j'"
    by blast+
  show ?thesis
  proof (intro conjI allI impI)
    show "shaped ?n1 ?n2 ?mm" by (rule sh)
  next
    fix j' i'
    assume a: "j' \<le> ?n2 \<and> i' \<le> ?n1 \<and> (j' < Suc j \<or> i' = 0)"
    then have "j' \<le> ?n2" "i' \<le> ?n1" "j' < j \<or> i' = 0 \<or> (j' = j \<and> i' < Suc ?n1)"
      by auto
    then show "?mm ! j' ! i' = ?D i' j'" by (rule inv)
  qed
qed

lemma levMatrix_cells:
  "shaped (length s1) (length s2) (levMatrix s1 s2)
   \<and> (\<forall>j' i'. j' \<le> length s2 \<and> i' \<le> length s1
        \<longrightarrow> levMatrix s1 s2 ! j' ! i' = levenshtein (take i' s1) (take j' s2))"
proof -
  let ?n1 = "length s1" and ?n2 = "length s2"
  let ?m2 = "fold (\<lambda>j m. setCell m j 0 j) [0..<Suc ?n2]
     (fold (\<lambda>i m. setCell m 0 i i) [0..<Suc ?n1] (replicate (Suc ?n2) (replicate (Suc ?n1) 0)))"
  let ?R = "\<lambda>j m. shaped ?n1 ?n2 m
     \<and> (\<forall>j' i'. j' \<le> ?n2 \<and> i' \<le> ?n1 \<and> (j' < j \<or> i' = 0)
           \<longrightarrow> m ! j' ! i' = levenshtein (take i' s1) (take j' s2))"
  have "?R (Suc ?n2) (fold (\<lambda>j m. fold (fillCell s1 s2 j) [1..<Suc ?n1] m) [1..<Suc ?n2] ?m2)"
  proof (rule fold_upt_invariant [where P = ?R])
    show "1 \<le> Suc ?n2" by simp
    show "?R 1 ?m2"
      using matrix_borders [of ?n1 ?n2] by auto
    show "\<forall>j m. 1 \<le> j \<and> j < Suc ?n2 \<and> ?R j m
            \<longrightarrow> ?R (Suc j) (fold (fillCell s1 s2 j) [1..<Suc ?n1] m)"
    proof (intro allI impI)
      fix j m
      assume h: "1 \<le> j \<and> j < Suc ?n2 \<and> ?R j m"
      then have j: "0 < j" "j \<le> ?n2" by auto
      from h fillCell_row [OF j, of s1 m]
      show "?R (Suc j) (fold (fillCell s1 s2 j) [1..<Suc ?n1] m)" by blast
    qed
  qed
  then show ?thesis
    by (auto simp: levMatrix_def Let_def less_Suc_eq_le)
qed

lemma levMatrix_last: "levMatrix s1 s2 ! length s2 ! length s1 = levenshtein s1 s2"
  using levMatrix_cells [of s1 s2] by simp

lemma levenshtein_same: "levenshtein a a = 0"
  by (induction a rule: rev_induct) (simp_all add: levenshtein_snoc)

lemma length_toLowerCase [simp]: "length (toLowerCase s) = length s"
  by (simp add: toLowerCase_def)

lemma toLowerCase_Nil [simp]:
  "toLowerCase s = [] \<longleftrightarrow> s = []" "[] = toLowerCase s \<longleftrightarrow> s = []" "toLowerCase [] = []"
  by (auto simp: toLowerCase_def)

lemma calculateSimilarity_levenshtein:
  assumes "x \<noteq> [] \<or> y \<noteq> []"
  shows "calculateSimilarity x y
     = 1 - of_nat (levenshtein (toLowerCase x) (toLowerCase y)) / of_nat (max (length x) (length y))"
proof -
  from assms have pos: "(of_nat (max (length x) (length y)) :: rat) \<noteq> 0"
    by (auto simp: max_def)
  show ?thesis
  proof (cases "toLowerCase x = toLowerCase y")
    case True
    then show ?thesis
      by (simp add: calculateSimilarity_def levenshtein_same)
  next
    case False
    show ?thesis
    proof (cases "x = [] \<or> y = []")
      case True
      with False assms show ?thesis
        by (auto simp: calculateSimilarity_def Let_def)
    next
      case False
      with \<open>toLowerCase x \<noteq> toLowerCase y\<close> pos show ?thesis
        using levMatrix_last [of "toLowerCase x" "toLowerCase y"]
        by (simp add: calculateSimilarity_def Let_def diff_divide_distrib)
    qed
  qed
qed

lemma calculateSimilarity_sym: "calculateSimilarity x y = calculateSimilarity y x"
proof (cases "x = [] \<and> y = []")
  case True
  then show ?thesis by simp
next
  case False
  then have "x \<noteq> [] \<or> y \<noteq> []" "y \<noteq> [] \<or> x \<noteq> []" by auto
  then show ?thesis
    by (simp add: calculateSimilarity_levenshtein max.commute
        levenshtein_sym [of "toLowerCase x" "toLowerCase y"])
qed

lemma isFuzzyMatch_sym: "isFuzzyMatch a b = isFuzzyMatch b a"
  by (simp add: isFuzzyMatch_def calculateSimilarity_sym [of "subject a" "subject b"]
      abs_minus_commute [of "date a" "date b"] eq_commute [of "normalizeSender (from_m a)"])

section \<open>Counting duplicates\<close>

text \<open>
  Claim C1. For every list of messages and every prior state of the deduplicator,
  \<open>deduplicate\<close> returns statistics with \<open>uniqueMessages + duplicatesRemoved =
  totalMessages\<close>, \<open>totalMessages\<close> the length of the input and \<open>uniqueMessages\<close> the length
  of the returned list; the four counters of \<open>deduplicationMethods\<close> sum to
  \<open>duplicatesRemoved\<close>; and every call of \<open>isDuplicate\<close> counts a duplicate under exactly
  the first strategy that matches, in the order global id, header id, content hash, fuzzy
  match, and counts nothing when none matches.
\<close>

theorem deduplicate_counts:
  "uniqueMessages_count (stats (fst (deduplicate this messages)))
     + duplicatesRemoved (stats (fst (deduplicate this messages)))
     = totalMessages (stats (fst (deduplicate this messages)))
   \<and> totalMessages (stats (fst (deduplicate this messages))) = int (length messages)
   \<and> uniqueMessages_count (stats (fst (deduplicate this messages)))
       = int (length (uniqueMessages (fst (deduplicate this messages))))
   \<and> globalMessageId_count (deduplicationMethods (stats (fst (deduplicate this messages))))
     + messageIdHeader_count (deduplicationMethods (stats (fst (deduplicate this messages))))
     + contentHash_count (deduplicationMethods (stats (fst (deduplicate this messages))))
     + fuzzyMatch_count (deduplicationMethods (stats (fst (deduplicate this messages))))
     = duplicatesRemoved (stats (fst (deduplicate this messages)))
   \<and> isDuplicate t m st =
       (case firstMatch t m of None \<Rightarrow> (False, st) | Some k \<Rightarrow> (True, countUnder k st))"
proof -
  obtain t' u s where loop:
    "dedupLoop (sortByDateDesc messages) (reset this, [], initialStats messages) = (t', u, s)"
    by (cases "dedupLoop (sortByDateDesc messages) (reset this, [], initialStats messages)") auto
  from dedupLoop_counts [OF loop]
  have "int (length u) + methodsTotal s = int (length messages)"
    and "totalMessages s = int (length messages)"
    by (simp_all add: sortByDateDesc_def initialStats_def methodsTotal_def)
  then show ?thesis
    by (simp add: deduplicate_def loop methodsTotal_def Let_def isDuplicate_firstMatch)
qed

text \<open>The same at the two messages that share the global id 42.\<close>

theorem deduplicate_counts_witness:
  "uniqueMessages_count (stats (fst (deduplicate emptyDeduplicator [hiEarly, hiLate]))) = 1
   \<and> duplicatesRemoved (stats (fst (deduplicate emptyDeduplicator [hiEarly, hiLate]))) = 1
   \<and> totalMessages (stats (fst (deduplicate emptyDeduplicator [hiEarly, hiLate]))) = 2
   \<and> globalMessageId_count
       (deduplicationMethods (stats (fst (deduplicate emptyDeduplicator [hiEarly, hiLate]))))
     + messageIdHeader_count
       (deduplicationMethods (stats (fst (deduplicate emptyDeduplicator [hiEarly, hiLate]))))
     + contentHash_count
       (deduplicationMethods (stats (fst (deduplicate emptyDeduplicator [hiEarly, hiLate]))))
     + fuzzyMatch_count
       (deduplicationMethods (stats (fst (deduplicate emptyDeduplicator [hiEarly, hiLate]))))
     = 1
   \<and> firstMatch (recordMessage emptyDeduplicator hiLate) hiEarly = Some ByGlobalId
   \<and> fst (isDuplicate (recordMessage emptyDeduplicator hiLate) hiEarly
            (initialStats [hiEarly, hiLate]))"
proof -
  have u: "length (uniqueMessages (fst (deduplicate emptyDeduplicator [hiEarly, hiLate]))) = 1"
    by code_simp
  have f: "firstMatch (recordMessage emptyDeduplicator hiLate) hiEarly = Some ByGlobalId"
    by code_simp
  show ?thesis
    using deduplicate_counts [of emptyDeduplicator "[hiEarly, hiLate]"
        "recordMessage emptyDeduplicator hiLate" hiEarly "initialStats [hiEarly, hiLate]"] u f
    by simp
qed

section \<open>Idempotence\<close>

lemma kept_idem: "kept this (kept this xs) = kept this xs"
  by (induction xs arbitrary: this) simp_all

lemma set_kept: "set (kept this xs) \<subseteq> set xs"
  by (induction xs arbitrary: this) auto

lemma sorted_kept: "sorted (map f xs) \<Longrightarrow> sorted (map f (kept this xs))"
proof (induction xs arbitrary: this)
  case Nil
  then show ?case by simp
next
  case (Cons m ms)
  then show ?case using set_kept [of "recordMessage this m" ms] by auto
qed

lemma sortByDateDesc_kept:
  "sortByDateDesc (kept this (sortByDateDesc xs)) = kept this (sortByDateDesc xs)"
  unfolding sortByDateDesc_def
  by (rule sort_key_id_if_sorted) (rule sorted_kept, rule sorted_sort_key)

text \<open>
  Claim C2. \<open>deduplicate\<close> is idempotent: for every list of messages, a second run, from any
  state of the deduplicator, on the unique list of a first run returns that list unchanged
  and removes no duplicate.
\<close>

theorem deduplicate_idempotent:
  "uniqueMessages (fst (deduplicate this2 (uniqueMessages (fst (deduplicate this msgs)))))
     = uniqueMessages (fst (deduplicate this msgs))
   \<and> duplicatesRemoved
        (stats (fst (deduplicate this2 (uniqueMessages (fst (deduplicate this msgs)))))) = 0"
proof -
  let ?u = "uniqueMessages (fst (deduplicate this msgs))"
  have same: "uniqueMessages (fst (deduplicate this2 ?u)) = ?u"
    by (simp add: uniqueMessages_kept sortByDateDesc_kept kept_idem)
  have "duplicatesRemoved (stats (fst (deduplicate this2 ?u)))
          = int (length ?u) - int (length (uniqueMessages (fst (deduplicate this2 ?u))))"
    by (simp add: deduplicate_fields)
  with same show ?thesis by simp
qed

text \<open>The same at the two messages that share the global id 42: the first run keeps the
  later one, the second run keeps it again.\<close>

theorem deduplicate_idempotent_witness:
  "uniqueMessages (fst (deduplicate emptyDeduplicator
      (uniqueMessages (fst (deduplicate emptyDeduplicator [hiEarly, hiLate]))))) = [hiLate]
   \<and> duplicatesRemoved (stats (fst (deduplicate emptyDeduplicator
      (uniqueMessages (fst (deduplicate emptyDeduplicator [hiEarly, hiLate])))))) = 0"
proof -
  have "uniqueMessages (fst (deduplicate emptyDeduplicator [hiEarly, hiLate])) = [hiLate]"
    by code_simp
  then show ?thesis
    using deduplicate_idempotent [of emptyDeduplicator emptyDeduplicator "[hiEarly, hiLate]"]
    by simp
qed

section \<open>Falsy identifiers\<close>

lemma withoutFalsyIds_fields [simp]:
  "subject (withoutFalsyIds m) = subject m"
  "from_m (withoutFalsyIds m) = from_m m"
  "date (withoutFalsyIds m) = date m"
  "account (withoutFalsyIds m) = account m"
  "source (withoutFalsyIds m) = source m"
  "truthyId (globalMessageId (withoutFalsyIds m)) = truthyId (globalMessageId m)"
  "truthyStr (messageIdHeader (withoutFalsyIds m)) = truthyStr (messageIdHeader m)"
  by (simp_all add: withoutFalsyIds_def truthyId_def truthyStr_def)

lemma withoutFalsyIds_truthy:
  "truthyId (globalMessageId m) \<Longrightarrow> globalMessageId (withoutFalsyIds m) = globalMessageId m"
  "truthyStr (messageIdHeader m) \<Longrightarrow> messageIdHeader (withoutFalsyIds m) = messageIdHeader m"
  by (auto simp: withoutFalsyIds_def truthyId_def truthyStr_def)

lemma withoutFalsyIds_keys [simp]:
  "generateContentHash (withoutFalsyIds m) = generateContentHash m"
  "generateFuzzyKey (withoutFalsyIds m) = generateFuzzyKey m"
  by (simp_all add: generateContentHash_def generateFuzzyKey_def)

lemma withoutFalsyIds_fuzzy [simp]:
  "isFuzzyMatch (withoutFalsyIds a) (withoutFalsyIds b) = isFuzzyMatch a b"
  by (simp add: isFuzzyMatch_def)

lemma isDuplicate_withoutFalsyIds:
  "sameSeen t t' \<Longrightarrow> isDuplicate t' (withoutFalsyIds m) st = isDuplicate t m st"
  by (auto simp: isDuplicate_def sameSeen_def withoutFalsyIds_truthy split: option.splits)

lemma recordMessage_withoutFalsyIds:
  "sameSeen t t' \<Longrightarrow> sameSeen (recordMessage t m) (recordMessage t' (withoutFalsyIds m))"
  by (auto simp: recordMessage_def sameSeen_def withoutFalsyIds_truthy Let_def fun_eq_iff)

lemma countSource_withoutFalsyIds [simp]:
  "countSource (withoutFalsyIds m) st = countSource m st"
  by (simp add: countSource_def)

lemma dedupLoop_withoutFalsyIds:
  "sameSeen t t' \<Longrightarrow> dedupLoop xs (t, uniq, st) = (t1, u1, st1) \<Longrightarrow>
     \<exists>t1'. dedupLoop (map withoutFalsyIds xs) (t', map withoutFalsyIds uniq, st)
             = (t1', map withoutFalsyIds u1, st1) \<and> sameSeen t1 t1'"
proof (induction xs arbitrary: t t' uniq st)
  case Nil
  then show ?case by auto
next
  case (Cons m xs)
  obtain dup s1 where d: "isDuplicate t m st = (dup, s1)"
    by (cases "isDuplicate t m st") auto
  with Cons.prems(1) have d': "isDuplicate t' (withoutFalsyIds m) st = (dup, s1)"
    by (simp add: isDuplicate_withoutFalsyIds)
  show ?case
  proof (cases dup)
    case True
    with d d' Cons.prems show ?thesis
      using Cons.IH [of t t' uniq "countSource m s1"] by (simp add: dedupStep_def)
  next
    case False
    with d d' Cons.prems show ?thesis
      using Cons.IH [of "recordMessage t m" "recordMessage t' (withoutFalsyIds m)"
          "uniq @ [m]" "countSource m s1"] recordMessage_withoutFalsyIds [of t t' m]
      by (simp add: dedupStep_def)
  qed
qed

lemma insort_key_map:
  "insort_key f (g x) (map g xs) = map g (insort_key (\<lambda>y. f (g y)) x xs)"
  by (induction xs) simp_all

lemma sort_key_map: "sort_key f (map g xs) = map g (sort_key (\<lambda>y. f (g y)) xs)"
  by (induction xs) (simp_all add: insort_key_map)

lemma sortByDateDesc_withoutFalsyIds:
  "sortByDateDesc (map withoutFalsyIds xs) = map withoutFalsyIds (sortByDateDesc xs)"
  by (simp add: sortByDateDesc_def sort_key_map)

lemma deduplicate_withoutFalsyIds:
  "uniqueMessages (fst (deduplicate this (map withoutFalsyIds msgs)))
     = map withoutFalsyIds (uniqueMessages (fst (deduplicate this msgs)))"
  "stats (fst (deduplicate this (map withoutFalsyIds msgs))) = stats (fst (deduplicate this msgs))"
proof -
  obtain t1 u1 s1 where loop:
    "dedupLoop (sortByDateDesc msgs) (reset this, [], initialStats msgs) = (t1, u1, s1)"
    by (cases "dedupLoop (sortByDateDesc msgs) (reset this, [], initialStats msgs)") auto
  have "sameSeen (reset this) (reset this)"
    by (simp add: sameSeen_def reset_def fun_eq_iff)
  from dedupLoop_withoutFalsyIds [OF this loop]
  obtain t1' where loop':
    "dedupLoop (sortByDateDesc (map withoutFalsyIds msgs))
       (reset this, [], initialStats (map withoutFalsyIds msgs))
     = (t1', map withoutFalsyIds u1, s1)"
    by (auto simp: sortByDateDesc_withoutFalsyIds initialStats_def)
  show "uniqueMessages (fst (deduplicate this (map withoutFalsyIds msgs)))
     = map withoutFalsyIds (uniqueMessages (fst (deduplicate this msgs)))"
    and "stats (fst (deduplicate this (map withoutFalsyIds msgs)))
     = stats (fst (deduplicate this msgs))"
    by (simp_all add: deduplicate_def loop loop' Let_def)
qed

lemma id_update_keys [simp]:
  "generateContentHash (m\<lparr>globalMessageId := g\<rparr>) = generateContentHash m"
  "generateContentHash (m\<lparr>messageIdHeader := h\<rparr>) = generateContentHash m"
  "generateFuzzyKey (m\<lparr>globalMessageId := g\<rparr>) = generateFuzzyKey m"
  "generateFuzzyKey (m\<lparr>messageIdHeader := h\<rparr>) = generateFuzzyKey m"
  "isFuzzyMatch (m\<lparr>globalMessageId := g\<rparr>) e = isFuzzyMatch m e"
  "isFuzzyMatch (m\<lparr>messageIdHeader := h\<rparr>) e = isFuzzyMatch m e"
  by (simp_all add: generateContentHash_def generateFuzzyKey_def isFuzzyMatch_def)

lemma falsy_never_seen_step:
  "0 \<notin> seenGlobalIds t \<and> [] \<notin> seenMessageIds t \<Longrightarrow>
   0 \<notin> seenGlobalIds (recordMessage t m) \<and> [] \<notin> seenMessageIds (recordMessage t m)"
  by (auto simp: recordMessage_def Let_def truthyId_def truthyStr_def split: option.splits)

lemma falsy_never_seen_loop:
  "0 \<notin> seenGlobalIds t \<and> [] \<notin> seenMessageIds t \<Longrightarrow>
   0 \<notin> seenGlobalIds (fst (dedupLoop xs (t, uniq, st)))
   \<and> [] \<notin> seenMessageIds (fst (dedupLoop xs (t, uniq, st)))"
proof (induction xs arbitrary: t uniq st)
  case Nil
  then show ?case by simp
next
  case (Cons m xs)
  then show ?case
    using falsy_never_seen_step [of t m]
    by (cases "isDuplicate t m st") (auto simp: dedupStep_def)
qed

text \<open>
  Claim C10. A message whose \<open>globalMessageId\<close> is 0, or whose \<open>messageIdHeader\<close> is the
  empty string, is treated by the two id strategies as if the identifier were absent:
  \<open>isDuplicate\<close> answers as it does for the message without the identifier and
  \<open>recordMessage\<close> leaves the index of seen identifiers unchanged; neither 0 nor the empty
  string is ever in the indexes that \<open>deduplicate\<close> builds; and replacing every falsy
  identifier of the input by an absent one changes neither which messages are kept nor any
  statistic, so such messages are matched by content hash and fuzzy match only.
\<close>

theorem falsy_ids_are_absent:
  "(globalMessageId m = Some 0 \<longrightarrow>
      isDuplicate t m st = isDuplicate t (m\<lparr>globalMessageId := None\<rparr>) st
      \<and> seenGlobalIds (recordMessage t m) = seenGlobalIds t)
   \<and> (messageIdHeader m = Some [] \<longrightarrow>
      isDuplicate t m st = isDuplicate t (m\<lparr>messageIdHeader := None\<rparr>) st
      \<and> seenMessageIds (recordMessage t m) = seenMessageIds t)
   \<and> 0 \<notin> seenGlobalIds (snd (deduplicate this msgs))
   \<and> [] \<notin> seenMessageIds (snd (deduplicate this msgs))
   \<and> uniqueMessages (fst (deduplicate this (map withoutFalsyIds msgs)))
       = map withoutFalsyIds (uniqueMessages (fst (deduplicate this msgs)))
   \<and> stats (fst (deduplicate this (map withoutFalsyIds msgs)))
       = stats (fst (deduplicate this msgs))"
proof -
  have a: "globalMessageId m = Some 0 \<longrightarrow>
      isDuplicate t m st = isDuplicate t (m\<lparr>globalMessageId := None\<rparr>) st
      \<and> seenGlobalIds (recordMessage t m) = seenGlobalIds t"
    by (simp add: isDuplicate_def recordMessage_def truthyId_def Let_def split: option.split)
  have b: "messageIdHeader m = Some [] \<longrightarrow>
      isDuplicate t m st = isDuplicate t (m\<lparr>messageIdHeader := None\<rparr>) st
      \<and> seenMessageIds (recordMessage t m) = seenMessageIds t"
    by (simp add: isDuplicate_def recordMessage_def truthyStr_def Let_def split: option.split)
  have c: "0 \<notin> seenGlobalIds (snd (deduplicate this msgs))
      \<and> [] \<notin> seenMessageIds (snd (deduplicate this msgs))"
    using falsy_never_seen_loop [of "reset this" "sortByDateDesc msgs" "[]" "initialStats msgs"]
    by (auto simp: deduplicate_def reset_def Let_def split: prod.splits)
  from a b c show ?thesis
    by (simp add: deduplicate_withoutFalsyIds)
qed

text \<open>The same at two messages that both carry the global id 0 and an empty header: both
  are kept.\<close>

theorem falsy_ids_are_absent_witness:
  "globalMessageId zeroIdA = Some 0 \<and> messageIdHeader zeroIdA = Some []
   \<and> isDuplicate (recordMessage emptyDeduplicator zeroIdB) zeroIdA (initialStats [zeroIdA, zeroIdB])
       = isDuplicate (recordMessage emptyDeduplicator zeroIdB) (zeroIdA\<lparr>globalMessageId := None\<rparr>)
           (initialStats [zeroIdA, zeroIdB])
   \<and> seenGlobalIds (recordMessage (recordMessage emptyDeduplicator zeroIdB) zeroIdA)
       = seenGlobalIds (recordMessage emptyDeduplicator zeroIdB)
   \<and> seenMessageIds (recordMessage (recordMessage emptyDeduplicator zeroIdB) zeroIdA)
       = seenMessageIds (recordMessage emptyDeduplicator zeroIdB)
   \<and> 0 \<notin> seenGlobalIds (snd (deduplicate emptyDeduplicator [zeroIdA, zeroIdB]))
   \<and> uniqueMessages (fst (deduplicate emptyDeduplicator [zeroIdA, zeroIdB])) = [zeroIdB, zeroIdA]
   \<and> uniqueMessages (fst (deduplicate emptyDeduplicator (map withoutFalsyIds [zeroIdA, zeroIdB])))
       = [withoutFalsyIds zeroIdB, withoutFalsyIds zeroIdA]"
proof -
  have g: "globalMessageId zeroIdA = Some 0" "messageIdHeader zeroIdA = Some []"
    by (simp_all add: zeroIdA_def)
  have u: "uniqueMessages (fst (deduplicate emptyDeduplicator [zeroIdA, zeroIdB]))
             = [zeroIdB, zeroIdA]"
    by code_simp
  show ?thesis
    using falsy_ids_are_absent [of zeroIdA "recordMessage emptyDeduplicator zeroIdB"
        "initialStats [zeroIdA, zeroIdB]" emptyDeduplicator "[zeroIdA, zeroIdB]"] g u
    by simp
qed

section \<open>Messages that share a global id\<close>










section \<open>The reply to a short subject\<close>












section \<open>The similarity of two strings\<close>

text \<open>
  Claim C9. The pairwise fuzzy-match predicate is symmetric. The similarity it uses is
  symmetric, is 1 for identical strings, is 0 when one string is empty and the other is
  not, and is \<open>1 - levenshtein(a, b) / max(len(a), len(b))\<close> on the strings in lower case
  whenever one of them is not empty.
\<close>

theorem fuzzy_match_symmetric:
  "isFuzzyMatch a b = isFuzzyMatch b a
   \<and> calculateSimilarity x y = calculateSimilarity y x
   \<and> calculateSimilarity x x = 1
   \<and> ((x = [] \<or> y = []) \<and> x \<noteq> y \<longrightarrow> calculateSimilarity x y = 0)
   \<and> (x \<noteq> [] \<or> y \<noteq> [] \<longrightarrow>
        calculateSimilarity x y
          = 1 - of_nat (levenshtein (toLowerCase x) (toLowerCase y))
                / of_nat (max (length x) (length y)))"
proof -
  have one: "calculateSimilarity x x = 1"
    by (simp add: calculateSimilarity_def)
  have zero: "(x = [] \<or> y = []) \<and> x \<noteq> y \<longrightarrow> calculateSimilarity x y = 0"
    by (auto simp: calculateSimilarity_def Let_def)
  from one zero show ?thesis
    using isFuzzyMatch_sym [of a b] calculateSimilarity_sym [of x y]
      calculateSimilarity_levenshtein [of x y]
    by blast
qed

text \<open>The same at the reply and the original of the example and at their subjects.\<close>

theorem fuzzy_match_symmetric_witness:
  "isFuzzyMatch replyReview review \<and> isFuzzyMatch review replyReview
   \<and> calculateSimilarity ''Re: Budget'' ''Budget'' = 3 / 5
   \<and> calculateSimilarity ''Budget'' ''Re: Budget'' = 3 / 5
   \<and> levenshtein (toLowerCase ''Re: Budget'') (toLowerCase ''Budget'') = 4
   \<and> calculateSimilarity ''Budget'' ''Budget'' = 1
   \<and> calculateSimilarity [] ''Budget'' = 0"
proof -
  have f: "isFuzzyMatch replyReview review"
    by code_simp
  have s: "calculateSimilarity ''Re: Budget'' ''Budget'' = 3 / 5"
    by code_simp
  have n: "''Re: Budget'' \<noteq> [] \<or> ''Budget'' \<noteq> []" "([] = [] \<or> ''Budget'' = []) \<and> [] \<noteq> ''Budget''"
    by simp_all
  have l: "length ''Re: Budget'' = 10" "length ''Budget'' = 6"
    by simp_all
  from fuzzy_match_symmetric [of replyReview review "''Re: Budget''" "''Budget''"] f s n(1) l
  have a: "isFuzzyMatch review replyReview"
    "calculateSimilarity ''Budget'' ''Re: Budget'' = 3 / 5"
    "levenshtein (toLowerCase ''Re: Budget'') (toLowerCase ''Budget'') = 4"
    by simp_all
  from fuzzy_match_symmetric [of replyReview review "''Budget''" "''Budget''"]
  have b: "calculateSimilarity ''Budget'' ''Budget'' = 1" by blast
  from fuzzy_match_symmetric [of replyReview review "[]" "''Budget''"] n(2)
  have c: "calculateSimilarity [] ''Budget'' = 0" by blast
  from f s a b c show ?thesis by simp
qed

section \<open>Groups of potential duplicates\<close>








section \<open>Freshness of cache reads\<close>

lemma selectGet_unique:
  assumes "distinct (map key table)"
  shows "selectGet (\<lambda>r. key r = k \<and> fresh r) table = Some row
     \<longleftrightarrow> row \<in> set table \<and> key row = k \<and> fresh row"
  using assms
proof (induction table)
  case Nil
  then show ?case by (simp add: selectGet_def)
next
  case (Cons r rs)
  then show ?case
    by (auto simp: selectGet_def image_iff)
qed

lemma selectGet_None:
  "selectGet cond table = None \<longleftrightarrow> (\<forall>r\<in>set table. \<not> cond r)"
  by (auto simp: selectGet_def find_None_iff)

lemma selectGet_insertOrReplace:
  "selectGet (\<lambda>r. key r = key row \<and> fresh r) (insertOrReplace key row table)
     = (if fresh row then Some row else None)"
  by (induction table) (simp_all add: selectGet_def insertOrReplace_def)

lemma distinct_insertOrReplace:
  "distinct (map key table) \<Longrightarrow> distinct (map key (insertOrReplace key row table))"
  by (induction table) (auto simp: insertOrReplace_def)

lemma wellFormed_preserved:
  "wellFormed emptyCache"
  "wellFormed c \<Longrightarrow> wellFormed (cacheMessage c message now)"
  "wellFormed c \<Longrightarrow> wellFormed (cacheMessageList c k ids n now)"
  "wellFormed c \<Longrightarrow> wellFormed (cacheSearchResults c q si ids now)"
  by (simp_all add: wellFormed_def emptyCache_def cacheMessage_def cacheMessageList_def
      cacheSearchResults_def distinct_insertOrReplace)

lemma selectGet_payload:
  assumes "distinct (map key table)"
  shows "map_option f (selectGet (\<lambda>r. key r = k \<and> fresh r) table) = Some v
     \<longleftrightarrow> (\<exists>row\<in>set table. key row = k \<and> fresh row \<and> v = f row)"
proof (cases "selectGet (\<lambda>r. key r = k \<and> fresh r) table")
  case None
  then have "\<forall>r\<in>set table. \<not> (key r = k \<and> fresh r)"
    by (simp only: selectGet_None)
  with None show ?thesis by auto
next
  case (Some row)
  have u: "r \<in> set table \<and> key r = k \<and> fresh r \<longleftrightarrow> r = row" for r
    using selectGet_unique [OF assms, of k fresh r] Some by auto
  have "(\<exists>r\<in>set table. key r = k \<and> fresh r \<and> v = f r) \<longleftrightarrow> v = f row"
  proof
    assume "\<exists>r\<in>set table. key r = k \<and> fresh r \<and> v = f r"
    then obtain r where "r \<in> set table \<and> key r = k \<and> fresh r" and "v = f r"
      by blast
    with u [of r] show "v = f row" by simp
  next
    assume "v = f row"
    moreover from u [of row] have "row \<in> set table \<and> key row = k \<and> fresh row"
      by simp
    ultimately show "\<exists>r\<in>set table. key r = k \<and> fresh r \<and> v = f r"
      by blast
  qed
  with Some show ?thesis by auto
qed

lemma fresh_age: "(t > now - ttl) = (now - t < (ttl::int))"
  by linarith

lemma getCachedMessageList_iff:
  assumes "wellFormed c"
  shows "getCachedMessageList c k now = Some v
     \<longleftrightarrow> (\<exists>row\<in>set (message_lists_table c). l_cache_key row = k
            \<and> now - l_cached_at row < MESSAGE_LIST_TTL
            \<and> v = \<lparr>messageIds = l_message_ids row, totalCount = l_total_count row\<rparr>)"
proof -
  from assms have d: "distinct (map l_cache_key (message_lists_table c))"
    by (simp add: wellFormed_def)
  have "getCachedMessageList c k now
      = map_option (\<lambda>row. \<lparr>messageIds = l_message_ids row, totalCount = l_total_count row\<rparr>)
          (selectGet (\<lambda>r. l_cache_key r = k \<and> now - l_cached_at r < MESSAGE_LIST_TTL)
             (message_lists_table c))"
    by (simp add: getCachedMessageList_def Let_def fresh_age split: option.split)
  then show ?thesis
    by (simp only: selectGet_payload [OF d])
qed

lemma getCachedSearchResults_iff:
  assumes "wellFormed c"
  shows "getCachedSearchResults c q si now = Some v
     \<longleftrightarrow> (\<exists>row\<in>set (search_cache_table c). s_query row = q \<and> s_search_in row = si
            \<and> now - s_cached_at row < SEARCH_TTL \<and> v = s_result_ids row)"
proof -
  from assms have d: "distinct (map (\<lambda>r. (s_query r, s_search_in r)) (search_cache_table c))"
    by (simp add: wellFormed_def)
  have e: "(\<lambda>r. s_query r = q \<and> s_search_in r = si \<and> s_cached_at r > now - SEARCH_TTL)
      = (\<lambda>r. (s_query r, s_search_in r) = (q, si) \<and> now - s_cached_at r < SEARCH_TTL)"
    by (auto simp: fresh_age)
  have "getCachedSearchResults c q si now
      = map_option s_result_ids
          (selectGet (\<lambda>r. (s_query r, s_search_in r) = (q, si) \<and> now - s_cached_at r < SEARCH_TTL)
             (search_cache_table c))"
    by (simp add: getCachedSearchResults_def Let_def e split: option.split)
  then have "getCachedSearchResults c q si now = Some v
     \<longleftrightarrow> (\<exists>row\<in>set (search_cache_table c). (s_query row, s_search_in row) = (q, si)
            \<and> now - s_cached_at row < SEARCH_TTL \<and> v = s_result_ids row)"
    by (simp only: selectGet_payload [OF d])
  then show ?thesis by simp
qed

lemma getCachedMessage_iff:
  assumes "wellFormed c"
  shows "getCachedMessage c k inc now = Some v
     \<longleftrightarrow> (\<exists>row\<in>set (messages_table c). m_id row = k
            \<and> now - m_cached_at row < (if inc then MESSAGE_CONTENT_TTL else MESSAGE_LIST_TTL)
            \<and> v = messageOfRow inc row)"
proof -
  let ?ttl = "if inc then MESSAGE_CONTENT_TTL else MESSAGE_LIST_TTL"
  from assms have d: "distinct (map m_id (messages_table c))"
    by (simp add: wellFormed_def)
  have "getCachedMessage c k inc now
      = map_option (messageOfRow inc)
          (selectGet (\<lambda>r. m_id r = k \<and> now - m_cached_at r < ?ttl) (messages_table c))"
    by (simp add: getCachedMessage_def Let_def fresh_age split: option.split)
  then show ?thesis
    by (simp only: selectGet_payload [OF d])
qed

lemma put_get_list:
  "getCachedMessageList (cacheMessageList c k ids n t0) k now
     = (if now - t0 < MESSAGE_LIST_TTL then Some \<lparr>messageIds = ids, totalCount = n\<rparr> else None)"
  using selectGet_insertOrReplace [of l_cache_key
      "\<lparr>l_cache_key = k, l_message_ids = ids, l_total_count = n, l_cached_at = t0\<rparr>"
      "\<lambda>r. l_cached_at r > now - MESSAGE_LIST_TTL" "message_lists_table c"]
  by (auto simp: getCachedMessageList_def cacheMessageList_def)

lemma put_get_search:
  "getCachedSearchResults (cacheSearchResults c q si ids t0) q si now
     = (if now - t0 < SEARCH_TTL then Some ids else None)"
proof -
  have e: "(\<lambda>r. s_query r = q \<and> s_search_in r = si \<and> s_cached_at r > now - SEARCH_TTL)
      = (\<lambda>r. (s_query r, s_search_in r)
               = (s_query \<lparr>s_query = q, s_search_in = si, s_result_ids = ids, s_cached_at = t0\<rparr>,
                  s_search_in \<lparr>s_query = q, s_search_in = si, s_result_ids = ids, s_cached_at = t0\<rparr>)
             \<and> s_cached_at r > now - SEARCH_TTL)"
    by auto
  show ?thesis
    using selectGet_insertOrReplace [of "\<lambda>r. (s_query r, s_search_in r)"
      "\<lparr>s_query = q, s_search_in = si, s_result_ids = ids, s_cached_at = t0\<rparr>"
      "\<lambda>r. s_cached_at r > now - SEARCH_TTL" "search_cache_table c"]
    unfolding getCachedSearchResults_def cacheSearchResults_def Let_def e
    by auto
qed

lemma messageOfRow_messageRow: "messageOfRow inc (messageRow t0 message) = readBack inc message"
  by (cases message) (simp add: messageOfRow_def messageRow_def readBack_def)

lemma put_get_message:
  "getCachedMessage (cacheMessage c message t0) (mm_id message) inc now
     = (if now - t0 < (if inc then MESSAGE_CONTENT_TTL else MESSAGE_LIST_TTL)
        then Some (readBack inc message) else None)"
proof -
  let ?ttl = "if inc then MESSAGE_CONTENT_TTL else MESSAGE_LIST_TTL"
  have k: "m_id (messageRow t0 message) = mm_id message"
    "m_cached_at (messageRow t0 message) = t0"
    by (simp_all add: messageRow_def)
  have "selectGet (\<lambda>r. m_id r = mm_id message \<and> m_cached_at r > now - ?ttl)
          (insertOrReplace m_id (messageRow t0 message) (messages_table c))
        = (if t0 > now - ?ttl then Some (messageRow t0 message) else None)"
    using selectGet_insertOrReplace [of m_id "messageRow t0 message"
        "\<lambda>r. m_cached_at r > now - ?ttl" "messages_table c"]
    by (simp only: k)
  moreover have "t0 > now - ?ttl \<longleftrightarrow> now - t0 < ?ttl" by linarith
  ultimately show ?thesis
    by (simp add: getCachedMessage_def cacheMessage_def Let_def messageOfRow_messageRow)
qed

lemma getCachedFolders_None:
  "getCachedFolders c now = None
     \<longleftrightarrow> (\<forall>r\<in>set (folders_table c). \<not> now - f_cached_at r < FOLDER_TTL)"
  by (auto simp: getCachedFolders_def selectAll_def Let_def filter_empty_conv fresh_age)

lemma ttl_values:
  "FOLDER_TTL = 3600000" "MESSAGE_LIST_TTL = 300000" "MESSAGE_CONTENT_TTL = 86400000"
  "SEARCH_TTL = 120000"
  by (simp_all add: FOLDER_TTL_def MESSAGE_LIST_TTL_def MESSAGE_CONTENT_TTL_def SEARCH_TTL_def)

text \<open>
  Claim C4, amended. In a cache whose tables respect their primary keys, a read for a key
  returns a value if and only if a row exists for that key whose \<open>cachedAt\<close> age is strictly
  less than the TTL of its entity type, and the value is the payload of that row: 24 hours
  for a message read with its content, 5 minutes for a message read without it and for a
  message list, 2 minutes for search results; the folder list is a miss exactly when no folder
  row is younger than 1 hour. A put at time \<open>t0\<close> followed by a get of the same key at time
  \<open>now\<close> returns the value put when \<open>now - t0\<close> is below the TTL (so immediately) and a miss
  once the age has reached the TTL; for a message the value comes back with its empty
  optional strings absent.
\<close>

theorem cache_read_fresh:
  assumes "wellFormed c"
  shows "(getCachedMessage c k inc now = Some m
        \<longleftrightarrow> (\<exists>row\<in>set (messages_table c). m_id row = k
              \<and> now - m_cached_at row < (if inc then MESSAGE_CONTENT_TTL else MESSAGE_LIST_TTL)
              \<and> m = messageOfRow inc row))
    \<and> (getCachedMessageList c ck now = Some l
        \<longleftrightarrow> (\<exists>row\<in>set (message_lists_table c). l_cache_key row = ck
              \<and> now - l_cached_at row < MESSAGE_LIST_TTL
              \<and> l = \<lparr>messageIds = l_message_ids row, totalCount = l_total_count row\<rparr>))
    \<and> (getCachedSearchResults c q si now = Some res
        \<longleftrightarrow> (\<exists>row\<in>set (search_cache_table c). s_query row = q \<and> s_search_in row = si
              \<and> now - s_cached_at row < SEARCH_TTL \<and> res = s_result_ids row))
    \<and> (getCachedFolders c now = None
        \<longleftrightarrow> (\<forall>r\<in>set (folders_table c). \<not> now - f_cached_at r < FOLDER_TTL))
    \<and> getCachedMessage (cacheMessage c message t0) (mm_id message) inc now
        = (if now - t0 < (if inc then MESSAGE_CONTENT_TTL else MESSAGE_LIST_TTL)
           then Some (readBack inc message) else None)
    \<and> getCachedMessageList (cacheMessageList c ck ids n t0) ck now
        = (if now - t0 < MESSAGE_LIST_TTL then Some \<lparr>messageIds = ids, totalCount = n\<rparr> else None)
    \<and> getCachedSearchResults (cacheSearchResults c q si ids t0) q si now
        = (if now - t0 < SEARCH_TTL then Some ids else None)
    \<and> FOLDER_TTL = 3600000 \<and> MESSAGE_LIST_TTL = 300000
    \<and> MESSAGE_CONTENT_TTL = 86400000 \<and> SEARCH_TTL = 120000"
  using getCachedMessage_iff [OF assms, of k inc now m]
    getCachedMessageList_iff [OF assms, of ck now l]
    getCachedSearchResults_iff [OF assms, of q si now res]
    getCachedFolders_None [of c now]
    put_get_message [of c message t0 inc now] put_get_list [of c ck ids n t0 now]
    put_get_search [of c q si ids t0 now] ttl_values
  by (intro conjI) blast+

text \<open>The same at a search result put into the empty cache at time 0: it is read back at
  once and a millisecond before two minutes have passed, and is a miss afterwards.\<close>

theorem cache_read_fresh_witness:
  "wellFormed emptyCache
   \<and> getCachedSearchResults (cacheSearchResults emptyCache ''budget'' ''subject'' [''msg-1''] 0)
        ''budget'' ''subject'' 0 = Some [''msg-1'']
   \<and> getCachedSearchResults (cacheSearchResults emptyCache ''budget'' ''subject'' [''msg-1''] 0)
        ''budget'' ''subject'' 119999 = Some [''msg-1'']
   \<and> getCachedSearchResults (cacheSearchResults emptyCache ''budget'' ''subject'' [''msg-1''] 0)
        ''budget'' ''subject'' 120001 = None
   \<and> getCachedMessage (cacheMessage emptyCache exampleMail 0) (mm_id exampleMail) True 0
        = Some (readBack True exampleMail)"
proof -
  have w: "wellFormed emptyCache"
    by (simp add: wellFormed_def emptyCache_def)
  note t = cache_read_fresh [OF w, where q = "''budget''" and si = "''subject''"
      and ids = "[''msg-1'']" and ?t0.0 = 0 and message = exampleMail and inc = True]
  let ?c = "cacheSearchResults emptyCache ''budget'' ''subject'' [''msg-1''] 0"
  from t [where now = 0]
  have a: "getCachedSearchResults ?c ''budget'' ''subject'' 0
      = (if 0 - 0 < SEARCH_TTL then Some [''msg-1''] else None)"
    and m: "getCachedMessage (cacheMessage emptyCache exampleMail 0) (mm_id exampleMail) True 0
      = (if 0 - 0 < (if True then MESSAGE_CONTENT_TTL else MESSAGE_LIST_TTL)
         then Some (readBack True exampleMail) else None)"
    by blast+
  from t [where now = 119999]
  have b: "getCachedSearchResults ?c ''budget'' ''subject'' 119999
      = (if 119999 - 0 < SEARCH_TTL then Some [''msg-1''] else None)"
    by blast
  from t [where now = 120001]
  have c: "getCachedSearchResults ?c ''budget'' ''subject'' 120001
      = (if 120001 - 0 < SEARCH_TTL then Some [''msg-1''] else None)"
    by blast
  from a b c m w show ?thesis
    by (simp add: SEARCH_TTL_def MESSAGE_CONTENT_TTL_def)
qed

text \<open>
  Claim C4 as stated fails when the age equals the TTL: a search result put at time 0 is a
  miss at time 120000, although its age does not exceed the two minutes of its class.
\<close>

theorem cache_miss_at_ttl:
  "120000 - 0 \<le> SEARCH_TTL
   \<and> length (search_cache_table
        (cacheSearchResults emptyCache ''budget'' ''subject'' [''msg-1''] 0)) = 1
   \<and> getCachedSearchResults (cacheSearchResults emptyCache ''budget'' ''subject'' [''msg-1''] 0)
        ''budget'' ''subject'' 120000 = None"
  by code_simp

section \<open>Cleaning the cache\<close>

lemma cleanup_tables:
  "folders_table (cleanup c now) = filter (\<lambda>r. now - f_cached_at r \<le> 86400000) (folders_table c)"
  "messages_table (cleanup c now) = filter (\<lambda>r. now - m_cached_at r \<le> 86400000) (messages_table c)"
  "message_lists_table (cleanup c now)
     = filter (\<lambda>r. now - l_cached_at r \<le> 86400000) (message_lists_table c)"
  "search_cache_table (cleanup c now)
     = filter (\<lambda>r. now - s_cached_at r \<le> 86400000) (search_cache_table c)"
proof -
  have e: "(\<not> t < now - 86400000) = (now - t \<le> 86400000)" for t :: int
    by linarith
  show "folders_table (cleanup c now)
      = filter (\<lambda>r. now - f_cached_at r \<le> 86400000) (folders_table c)"
    "messages_table (cleanup c now)
      = filter (\<lambda>r. now - m_cached_at r \<le> 86400000) (messages_table c)"
    "message_lists_table (cleanup c now)
      = filter (\<lambda>r. now - l_cached_at r \<le> 86400000) (message_lists_table c)"
    "search_cache_table (cleanup c now)
      = filter (\<lambda>r. now - s_cached_at r \<le> 86400000) (search_cache_table c)"
    by (simp_all add: cleanup_def deleteWhere_def Let_def e)
qed

text \<open>
  Claim C8. After \<open>cleanup\<close> at time \<open>now\<close>, each of the four tables holds exactly its rows
  whose \<open>cachedAt\<close> is not older than one day, unchanged and in their order: every row
  older than the horizon is absent and every newer row survives. The horizon is the same
  for the four tables, whatever the TTL of their entity type. The primary keys stay
  respected.
\<close>

theorem cleanup_retention:
  "folders_table (cleanup c now)
     = filter (\<lambda>r. now - f_cached_at r \<le> 86400000) (folders_table c)
   \<and> messages_table (cleanup c now)
     = filter (\<lambda>r. now - m_cached_at r \<le> 86400000) (messages_table c)
   \<and> message_lists_table (cleanup c now)
     = filter (\<lambda>r. now - l_cached_at r \<le> 86400000) (message_lists_table c)
   \<and> search_cache_table (cleanup c now)
     = filter (\<lambda>r. now - s_cached_at r \<le> 86400000) (search_cache_table c)
   \<and> (wellFormed c \<longrightarrow> wellFormed (cleanup c now))"
  by (simp add: cleanup_tables wellFormed_def distinct_map_filter)

text \<open>The same on a cache with a search result written at 0, a message list written at
  1000 and a message written at 86000000, cleaned at 86400500: the search result is gone;
  the message list, stale for its own TTL long since, is still there, and so is the
  message.\<close>

theorem cleanup_retention_witness:
  "search_cache_table (cleanup exampleCache 86400500) = []
   \<and> message_lists_table (cleanup exampleCache 86400500) = message_lists_table exampleCache
   \<and> length (message_lists_table exampleCache) = 1
   \<and> getCachedMessageList exampleCache ''INBOX:0'' 86400500 = None
   \<and> messages_table (cleanup exampleCache 86400500) = messages_table exampleCache
   \<and> wellFormed (cleanup exampleCache 86400500)"
proof -
  have a: "filter (\<lambda>r. 86400500 - s_cached_at r \<le> 86400000) (search_cache_table exampleCache) = []"
    by code_simp
  have b: "filter (\<lambda>r. 86400500 - l_cached_at r \<le> 86400000) (message_lists_table exampleCache)
      = message_lists_table exampleCache"
    by code_simp
  have c: "filter (\<lambda>r. 86400500 - m_cached_at r \<le> 86400000) (messages_table exampleCache)
      = messages_table exampleCache"
    by code_simp
  have d: "length (message_lists_table exampleCache) = 1"
    "getCachedMessageList exampleCache ''INBOX:0'' 86400500 = None"
    "wellFormed exampleCache"
    by code_simp+
  from cleanup_retention [of exampleCache 86400500] a b c d show ?thesis by simp
qed

end
